theory Spec2Isabelle
  imports Main "HOL-Library.Stream"
begin

section \<open>Data model\<close>

text \<open>
  The LDAP authentication provider of the VS Code extension comes in two versions. One keeps
  an expiry time per session (a fixed client-side lifetime), retries a failed login and
  recovers from a rejected token (\<^verbatim>\<open>src/unnamed/part_000\<close> among the sources); it is called
  "the provider" below. The other, \<^verbatim>\<open>extensions/vscode/src/stubs/LdapAuthProvider.ts\<close>, keeps
  the lifetime the server sent; it is called "the basic provider". Both are embedded here,
  as is the token accessor \<^verbatim>\<open>extensions/vscode/src/stubs/auth.ts\<close>. What the two providers
  share (storage and network access) is polymorphic in the type \<open>'s\<close> of session records.
\<close>

text \<open>Errors that the code throws. \<open>Error m\<close> is \<^verbatim>\<open>new Error(m)\<close>; \<open>FetchError\<close> is what
  \<^verbatim>\<open>fetch\<close> rejects with (transport failure, or the abort issued by the request's timeout);
  \<open>SyntaxError\<close> is what \<^verbatim>\<open>JSON.parse\<close> and \<^verbatim>\<open>response.json()\<close> throw on text that is
  not JSON; \<open>TypeError\<close> is a property read on \<^verbatim>\<open>undefined\<close>.\<close>

datatype error = Error string | FetchError | SyntaxError | TypeError

record account =
  account_id :: string
  label :: string

text \<open>\<^verbatim>\<open>interface ContinueAuthenticationSession\<close> of the provider. The field \<^verbatim>\<open>id\<close> is
  \<open>session_id\<close> here.\<close>

record session =
  session_id :: string
  accessToken :: string
  account :: account
  scopes :: "string list"
  refreshToken :: string
  expiresAt :: int
  loginNeeded :: bool

text \<open>\<^verbatim>\<open>interface LdapAuthResponse\<close>. \<^verbatim>\<open>tokens.refreshToken\<close> is optional.
  \<^verbatim>\<open>tokens.expiresIn\<close> is declared and read by the basic provider only; the field holds what
  the body has there, as it is written, and \<open>None\<close> when the body has nothing there.\<close>

record ldapUser =
  username :: string
  email :: string
  displayName :: string
  groups :: "string list"

record ldapTokens =
  tokens_accessToken :: string
  tokens_refreshToken :: "string option"
  tokens_expiresIn :: "string option"

record ldapAuthResponse =
  success :: bool
  user :: ldapUser
  tokens :: ldapTokens

text \<open>The body of an HTTP response: a well-formed \<^verbatim>\<open>LdapAuthResponse\<close>, a JSON object
  without \<^verbatim>\<open>user\<close> and \<^verbatim>\<open>tokens\<close> that may carry a \<^verbatim>\<open>detail\<close> string, or text
  that is not JSON.\<close>

datatype body = AuthBody ldapAuthResponse | ErrorBody "string option" | NotJson

text \<open>What one \<^verbatim>\<open>fetch\<close> call ends with: it rejects, or it resolves to a response with
  its \<^verbatim>\<open>ok\<close> flag and its body.\<close>

datatype reply = Rejects | Response bool body

datatype request = PostLogin string string | PostRefresh string | PostLogout string

text \<open>The text kept in secret storage: the \<^verbatim>\<open>JSON.stringify\<close> of a list of session records,
  the empty string, or text that \<^verbatim>\<open>JSON.parse\<close> rejects.\<close>

datatype 's stored = Json "'s list" | Empty | Unparsable

text \<open>The argument of \<^verbatim>\<open>_sessionChangeEmitter.fire\<close>.\<close>

record 's event =
  added :: "'s list"
  removed :: "'s list"
  changed :: "'s list"

text \<open>Effects on the outside, in the order in which they happen.\<close>

datatype 's effect =
    SecretGet string
  | SecretStore string "'s stored"
  | Fetch request
  | Fire "'s event"
  | InputBox string
  | ErrorMessage string

text \<open>
  The state a call runs in. \<open>secrets\<close> is the secret storage and \<open>isRefreshing\<close> the provider's
  \<^verbatim>\<open>_isRefreshing\<close> flag. The surroundings are scripted: \<open>replies\<close> holds what the successive
  \<^verbatim>\<open>fetch\<close> calls will end with, \<open>clock\<close> what the successive \<^verbatim>\<open>Date.now()\<close> calls will
  return, \<open>inputs\<close> what the user will enter in the successive input boxes (\<open>None\<close>: the box
  was dismissed). \<open>trace\<close> lists the effects so far, oldest first.
\<close>

record 's world =
  secrets :: "string \<Rightarrow> 's stored option"
  isRefreshing :: bool
  replies :: "reply stream"
  clock :: "int stream"
  inputs :: "string option stream"
  trace :: "'s effect list"

section \<open>The surroundings\<close>

definition Date_now :: "'s world \<Rightarrow> int \<times> 's world" where
  "Date_now w = (shd (clock w), w\<lparr>clock := stl (clock w)\<rparr>)"

definition fetch :: "'s world \<Rightarrow> request \<Rightarrow> reply \<times> 's world" where
  "fetch w rq = (shd (replies w), w\<lparr>replies := stl (replies w), trace := trace w @ [Fetch rq]\<rparr>)"

definition showInputBox :: "'s world \<Rightarrow> string \<Rightarrow> string option \<times> 's world" where
  "showInputBox w prompt =
     (shd (inputs w), w\<lparr>inputs := stl (inputs w), trace := trace w @ [InputBox prompt]\<rparr>)"

definition showErrorMessage :: "'s world \<Rightarrow> string \<Rightarrow> 's world" where
  "showErrorMessage w msg = w\<lparr>trace := trace w @ [ErrorMessage msg]\<rparr>"

definition fire :: "'s world \<Rightarrow> 's event \<Rightarrow> 's world" where
  "fire w e = w\<lparr>trace := trace w @ [Fire e]\<rparr>"

text \<open>Modelled from the spec: the secure credential store (\<^verbatim>\<open>./SecretStorage\<close>, not among the
  sources), a key-value interface: \<^verbatim>\<open>get\<close> returns what was stored under the key, or
  \<^verbatim>\<open>undefined\<close>; \<^verbatim>\<open>store\<close> overwrites it.\<close>

definition secretStorage_get :: "'s world \<Rightarrow> string \<Rightarrow> 's stored option \<times> 's world" where
  "secretStorage_get w key = (secrets w key, w\<lparr>trace := trace w @ [SecretGet key]\<rparr>)"

definition secretStorage_store :: "'s world \<Rightarrow> string \<Rightarrow> 's stored \<Rightarrow> 's world" where
  "secretStorage_store w key data =
     w\<lparr>secrets := (secrets w)(key \<mapsto> data), trace := trace w @ [SecretStore key data]\<rparr>"

text \<open>The requests and events in a trace.\<close>

fun calls :: "'s effect list \<Rightarrow> request list" where
  "calls [] = []"
| "calls (Fetch rq # es) = rq # calls es"
| "calls (_ # es) = calls es"

fun events :: "'s effect list \<Rightarrow> 's event list" where
  "events [] = []"
| "events (Fire e # es) = e # events es"
| "events (_ # es) = events es"

fun prompts :: "'s effect list \<Rightarrow> string list" where
  "prompts [] = []"
| "prompts (InputBox p # es) = p # prompts es"
| "prompts (_ # es) = prompts es"

section \<open>JavaScript values\<close>

text \<open>\<^verbatim>\<open>!v\<close> for an optional string: \<^verbatim>\<open>undefined\<close> and the empty string are falsy.\<close>

definition falsy :: "string option \<Rightarrow> bool" where
  "falsy v = (case v of None \<Rightarrow> True | Some s \<Rightarrow> s = [])"

text \<open>\<^verbatim>\<open>a || b\<close> for an optional string \<open>a\<close>.\<close>

definition orElse :: "string option \<Rightarrow> string \<Rightarrow> string" where
  "orElse a b = (case a of None \<Rightarrow> b | Some s \<Rightarrow> if s = [] then b else s)"

definition JSON_stringify :: "'s list \<Rightarrow> 's stored" where
  "JSON_stringify sessions = Json sessions"

definition JSON_parse :: "'s stored \<Rightarrow> error + 's list" where
  "JSON_parse data = (case data of Json sessions \<Rightarrow> Inr sessions | _ \<Rightarrow> Inl SyntaxError)"

text \<open>\<^verbatim>\<open>(await response.json()) as LdapAuthResponse\<close> followed by the reads of
  \<^verbatim>\<open>data.user\<close> and \<^verbatim>\<open>data.tokens\<close>.\<close>

definition authData :: "body \<Rightarrow> error + ldapAuthResponse" where
  "authData b = (case b of AuthBody data \<Rightarrow> Inr data | ErrorBody _ \<Rightarrow> Inl TypeError | NotJson \<Rightarrow> Inl SyntaxError)"

text \<open>\<^verbatim>\<open>(await response.json().catch(() => ({}))).detail\<close>.\<close>

definition errorDetail :: "body \<Rightarrow> string option" where
  "errorDetail b = (case b of ErrorBody d \<Rightarrow> d | _ \<Rightarrow> None)"

text \<open>\<^verbatim>\<open>Array.prototype.findIndex\<close>: the first index whose element satisfies \<open>p\<close>, or \<open>-1\<close>.\<close>

fun findIndex :: "('a \<Rightarrow> bool) \<Rightarrow> 'a list \<Rightarrow> int" where
  "findIndex p [] = -1"
| "findIndex p (x # xs) =
     (if p x then 0 else (let i = findIndex p xs in if i < 0 then -1 else i + 1))"

text \<open>\<^verbatim>\<open>xs[i]\<close>: \<^verbatim>\<open>undefined\<close> outside the array.\<close>

definition elemAt :: "'a list \<Rightarrow> int \<Rightarrow> 'a option" where
  "elemAt xs i = (if 0 \<le> i \<and> i < int (length xs) then Some (xs ! nat i) else None)"

text \<open>The array after \<^verbatim>\<open>xs.splice(start, deleteCount)\<close>: a negative \<open>start\<close> counts from the
  end of the array.\<close>

definition splice_js :: "'a list \<Rightarrow> int \<Rightarrow> nat \<Rightarrow> 'a list" where
  "splice_js xs start deleteCount =
     (let n = int (length xs);
          from = nat (if start < 0 then max (n + start) 0 else min start n)
      in take from xs @ drop (from + deleteCount) xs)"

section \<open>Storage of the session list (both providers)\<close>

definition storeSessions :: "'s world \<Rightarrow> 's list \<Rightarrow> 's world" where
  "storeSessions w sessions = secretStorage_store w ''ldap.sessions'' (JSON_stringify sessions)"

definition getSessions :: "'s world \<Rightarrow> (error + 's list) \<times> 's world" where
  "getSessions w =
     (case secretStorage_get w ''ldap.sessions'' of
        (None, w1) \<Rightarrow> (Inr [], w1)
      | (Some Empty, w1) \<Rightarrow> (Inr [], w1)
      | (Some data, w1) \<Rightarrow> (JSON_parse data, w1))"

section \<open>The provider\<close>

text \<open>
  Each method of the class becomes a function from the state it is called in to its result
  and the state it leaves; a rejected promise is \<open>Inl\<close>. Two calls run one after the other
  unless stated otherwise (the sweep is also given step by step below). Left out: console
  output, the timers that abort a request (their effect is the reply \<open>Rejects\<close>), the
  constant server URL in front of \<^verbatim>\<open>/login\<close>, \<^verbatim>\<open>/refresh\<close> and \<^verbatim>\<open>/logout\<close>, and failures
  of the secret storage itself.
\<close>

definition ACCESS_TOKEN_TTL_MINUTES :: int where
  "ACCESS_TOKEN_TTL_MINUTES = 10"

definition maxAttempts :: nat where
  "maxAttempts = 3"

text \<open>What \<^verbatim>\<open>_refreshSession\<close> returns.\<close>

record refreshed =
  new_accessToken :: string
  new_refreshToken :: string
  new_expiresAt :: int

text \<open>\<^verbatim>\<open>_refreshSession\<close>. The request carries a 10 s timeout that aborts it: \<open>Rejects\<close>.\<close>

definition refreshSession :: "session world \<Rightarrow> string \<Rightarrow> (error + refreshed) \<times> session world" where
  "refreshSession w token =
     (case fetch w (PostRefresh token) of
        (Rejects, w1) \<Rightarrow> (Inl FetchError, w1)
      | (Response ok b, w1) \<Rightarrow>
          if \<not> ok then (Inl (Error (orElse (errorDetail b) ''Token refresh failed'')), w1)
          else (case authData b of
                  Inl e \<Rightarrow> (Inl e, w1)
                | Inr data \<Rightarrow>
                    (case Date_now w1 of
                       (now, w2) \<Rightarrow>
                         (Inr \<lparr>new_accessToken = tokens_accessToken (tokens data),
                               new_refreshToken = orElse (tokens_refreshToken (tokens data)) token,
                               new_expiresAt = now + ACCESS_TOKEN_TTL_MINUTES * 60 * 1000\<rparr>, w2))))"

text \<open>\<^verbatim>\<open>{...session, accessToken: ..., refreshToken: ..., expiresAt: ...}\<close>\<close>

definition withRefreshed :: "session \<Rightarrow> refreshed \<Rightarrow> session" where
  "withRefreshed s r =
     s\<lparr>accessToken := new_accessToken r, refreshToken := new_refreshToken r,
       expiresAt := new_expiresAt r\<rparr>"

subsection \<open>createSession\<close>

text \<open>How the \<^verbatim>\<open>try\<close> block of one pass of the login loop ends when it does not throw:
  it returns the session, or it continues the loop (after \<^verbatim>\<open>attempts++\<close>).\<close>

datatype flow = Return session | Continue

text \<open>The \<^verbatim>\<open>try\<close> block of the login loop; \<open>Inl\<close> is an error thrown inside it.\<close>

definition loginTry :: "session world \<Rightarrow> nat \<Rightarrow> string \<Rightarrow> string \<Rightarrow> (error + flow) \<times> session world" where
  "loginTry w attempts uname password =
     (case fetch w (PostLogin uname password) of
        (Rejects, w1) \<Rightarrow> (Inl FetchError, w1)
      | (Response ok b, w1) \<Rightarrow>
          if ok then
            (case authData b of
               Inl e \<Rightarrow> (Inl e, w1)
             | Inr data \<Rightarrow>
                 (case Date_now w1 of
                    (now, w2) \<Rightarrow>
                      (let s = \<lparr>session_id = uname,
                                accessToken = tokens_accessToken (tokens data),
                                account = \<lparr>account_id = uname,
                                           label = orElse (Some (displayName (user data))) uname\<rparr>,
                                scopes = [],
                                refreshToken = orElse (tokens_refreshToken (tokens data)) '''',
                                expiresAt = now + ACCESS_TOKEN_TTL_MINUTES * 60 * 1000,
                                loginNeeded = False\<rparr>
                       in (Inr (Return s), storeSessions w2 [s]))))
          else
            (let errorMessage = orElse (errorDetail b) ''Invalid credentials'' in
             if attempts < maxAttempts - 1 then
               (Inr Continue,
                showErrorMessage w1 (''Login failed: '' @ errorMessage @ ''. Please try again.''))
             else (Inl (Error errorMessage), w1)))"

text \<open>The \<^verbatim>\<open>while\<close> loop of \<^verbatim>\<open>createSession\<close>, from the value \<open>attempts\<close> on. Where an
  input is not falsy, \<open>orElse\<close> applied to it gives the string that was entered. A throw
  outside the \<^verbatim>\<open>try\<close> block ends the call; a throw inside it reaches the \<^verbatim>\<open>catch\<close> block,
  also the \<^verbatim>\<open>throw new Error(errorMessage)\<close> of the last attempt.\<close>

function createSessionLoop :: "session world \<Rightarrow> nat \<Rightarrow> (error + session) \<times> session world" where
  "createSessionLoop w attempts =
     (if attempts < maxAttempts then
        (case showInputBox w (if attempts = 0 then ''Enter LDAP username''
                              else ''Invalid credentials. Enter LDAP username'') of
           (uname, w1) \<Rightarrow>
             if falsy uname then (Inl (Error ''Username required''), w1)
             else
               (case showInputBox w1 ''Enter LDAP password'' of
                  (password, w2) \<Rightarrow>
                    if falsy password then (Inl (Error ''Password required''), w2)
                    else
                      (case loginTry w2 attempts (orElse uname '''') (orElse password '''') of
                         (Inr (Return s), w3) \<Rightarrow> (Inr s, w3)
                       | (Inr Continue, w3) \<Rightarrow> createSessionLoop w3 (Suc attempts)
                       | (Inl e, w3) \<Rightarrow>
                           if attempts < maxAttempts - 1 then
                             createSessionLoop
                               (showErrorMessage w3 ''Connection failed. Please try again.'')
                               (Suc attempts)
                           else (Inl e, w3))))
      else (Inl (Error ''Maximum login attempts exceeded''), w))"
  by pat_completeness auto
termination
  by (relation "measure (\<lambda>(w, attempts). maxAttempts - attempts)") auto

declare createSessionLoop.simps [simp del]

definition createSession :: "session world \<Rightarrow> string list \<Rightarrow> (error + session) \<times> session world" where
  "createSession w scopes_arg = createSessionLoop w 0"

subsection \<open>removeSession\<close>

text \<open>Whatever the logout request ends with is ignored: a rejection is caught, a response is
  not read.\<close>

definition removeSession :: "session world \<Rightarrow> string \<Rightarrow> (error + unit) \<times> session world" where
  "removeSession w sessionId =
     (case getSessions w of
        (Inl e, w1) \<Rightarrow> (Inl e, w1)
      | (Inr sessions, w1) \<Rightarrow>
          (let sessionIdx = findIndex (\<lambda>s. session_id s = sessionId) sessions in
           case elemAt sessions sessionIdx of
             None \<Rightarrow> (Inr (), w1)
           | Some s \<Rightarrow>
               (let w2 = storeSessions w1 (splice_js sessions sessionIdx 1);
                    w3 = (if refreshToken s \<noteq> []
                          then snd (fetch w2 (PostLogout (refreshToken s))) else w2)
                in (Inr (), fire w3 \<lparr>added = [], removed = [s], changed = []\<rparr>))))"

subsection \<open>refreshSessions\<close>

text \<open>The \<^verbatim>\<open>for\<close> loop of the sweep over the sessions still to visit; the accumulator is
  \<^verbatim>\<open>refreshedSessions\<close>.\<close>

fun sweep :: "session world \<Rightarrow> session list \<Rightarrow> session list \<Rightarrow> session list \<times> session world" where
  "sweep w [] refreshedSessions = (refreshedSessions, w)"
| "sweep w (s # rest) refreshedSessions =
     (case Date_now w of
        (now, w1) \<Rightarrow>
          if expiresAt s > now then sweep w1 rest (refreshedSessions @ [s])
          else
            (case refreshSession w1 (refreshToken s) of
               (Inr r, w2) \<Rightarrow> sweep w2 rest (refreshedSessions @ [withRefreshed s r])
             | (Inl e, w2) \<Rightarrow> sweep w2 rest (refreshedSessions @ [s])))"

text \<open>\<^verbatim>\<open>refreshSessions\<close>: the early return, then the \<^verbatim>\<open>try\<close> block with the flag set, and the
  \<^verbatim>\<open>finally\<close> block on both of its exits.\<close>

definition refreshSessions :: "session world \<Rightarrow> (error + unit) \<times> session world" where
  "refreshSessions w =
     (if isRefreshing w then (Inr (), w)
      else
        (case getSessions (w\<lparr>isRefreshing := True\<rparr>) of
           (Inl e, w1) \<Rightarrow> (Inl e, w1\<lparr>isRefreshing := False\<rparr>)
         | (Inr sessions, w1) \<Rightarrow>
             (case sweep w1 sessions [] of
                (refreshedSessions, w2) \<Rightarrow>
                  (Inr (),
                   (if length refreshedSessions > 0 then storeSessions w2 refreshedSessions
                    else w2)\<lparr>isRefreshing := False\<rparr>))))"

subsection \<open>handleTokenExpired\<close>

text \<open>The outer \<^verbatim>\<open>catch\<close> turns a failure of \<^verbatim>\<open>getSessions\<close> into \<open>False\<close>; the inner one handles
  a failed refresh.\<close>

definition handleTokenExpired :: "session world \<Rightarrow> bool \<times> session world" where
  "handleTokenExpired w =
     (case getSessions w of
        (Inl e, w1) \<Rightarrow> (False, w1)
      | (Inr [], w1) \<Rightarrow> (False, w1)
      | (Inr (s # others), w1) \<Rightarrow>
          (case refreshSession w1 (refreshToken s) of
             (Inr r, w2) \<Rightarrow>
               (let refreshedSession = withRefreshed s r
                in (True, fire (storeSessions w2 [refreshedSession])
                            \<lparr>added = [], removed = [], changed = [refreshedSession]\<rparr>))
           | (Inl e, w2) \<Rightarrow>
               (False, fire (storeSessions w2 [])
                         \<lparr>added = [], removed = [s], changed = []\<rparr>)))"

subsection \<open>The sweep between its suspension points\<close>

text \<open>
  \<^verbatim>\<open>refreshSessions\<close> is asynchronous: it gives way to other tasks at its \<^verbatim>\<open>await\<close>s. A task
  is an invocation of it with what it still has to do: \<open>Entry\<close> has been issued and has not
  run yet; \<open>Loading\<close> has set the flag and waits for \<^verbatim>\<open>getSessions\<close>; \<open>Loop rest acc\<close> is at the
  head of the \<^verbatim>\<open>for\<close> loop with \<open>rest\<close> still to visit and \<^verbatim>\<open>refreshedSessions = acc\<close>;
  \<open>Refreshing s rest acc\<close> waits for \<^verbatim>\<open>_refreshSession\<close> on \<open>s\<close>; \<open>Storing acc\<close> waits for
  \<^verbatim>\<open>storeSessions\<close>; \<open>Done r\<close> has returned (\<open>Inr\<close>) or thrown (\<open>Inl\<close>), after the
  \<^verbatim>\<open>finally\<close> block when it had entered the \<^verbatim>\<open>try\<close>.
\<close>

datatype task =
    Entry
  | Loading
  | Loop "session list" "session list"
  | Refreshing session "session list" "session list"
  | Storing "session list"
  | Done "error + unit"

fun step :: "session world \<Rightarrow> task \<Rightarrow> session world \<times> task" where
  "step w Entry =
     (if isRefreshing w then (w, Done (Inr ())) else (w\<lparr>isRefreshing := True\<rparr>, Loading))"
| "step w Loading =
     (case getSessions w of
        (Inl e, w1) \<Rightarrow> (w1\<lparr>isRefreshing := False\<rparr>, Done (Inl e))
      | (Inr sessions, w1) \<Rightarrow> (w1, Loop sessions []))"
| "step w (Loop [] acc) =
     (if length acc > 0 then (w, Storing acc) else (w\<lparr>isRefreshing := False\<rparr>, Done (Inr ())))"
| "step w (Loop (s # rest) acc) =
     (case Date_now w of
        (now, w1) \<Rightarrow>
          if expiresAt s > now then (w1, Loop rest (acc @ [s])) else (w1, Refreshing s rest acc))"
| "step w (Refreshing s rest acc) =
     (case refreshSession w (refreshToken s) of
        (Inr r, w1) \<Rightarrow> (w1, Loop rest (acc @ [withRefreshed s r]))
      | (Inl e, w1) \<Rightarrow> (w1, Loop rest (acc @ [s])))"
| "step w (Storing acc) = ((storeSessions w acc)\<lparr>isRefreshing := False\<rparr>, Done (Inr ()))"
| "step w (Done r) = (w, Done r)"

text \<open>\<open>n\<close> steps of one task.\<close>

fun steps :: "nat \<Rightarrow> session world \<times> task \<Rightarrow> session world \<times> task" where
  "steps 0 c = c"
| "steps (Suc n) (w, t) = steps n (step w t)"

text \<open>Two invocations that share the provider, run in the order a schedule gives.\<close>

datatype turn = First | Second

fun interleave :: "turn list \<Rightarrow> session world \<times> task \<times> task \<Rightarrow> session world \<times> task \<times> task" where
  "interleave [] c = c"
| "interleave (First # sch) (w, a, b) = (case step w a of (w1, a1) \<Rightarrow> interleave sch (w1, a1, b))"
| "interleave (Second # sch) (w, a, b) = (case step w b of (w1, b1) \<Rightarrow> interleave sch (w1, a, b1))"

definition inProgress :: "task \<Rightarrow> bool" where
  "inProgress t = (case t of Entry \<Rightarrow> False | Done r \<Rightarrow> False | _ \<Rightarrow> True)"

section \<open>The basic provider\<close>

text \<open>
  \<^verbatim>\<open>stubs/LdapAuthProvider.ts\<close>, embedded like the provider above. Its requests carry no
  timeout; a request that is never answered is left out. \<^verbatim>\<open>getSessions\<close> and
  \<^verbatim>\<open>storeSessions\<close> are those of the storage section.
\<close>

text \<open>
  The basic provider computes with the lifetime the server sent:
  \<^verbatim>\<open>data.tokens.expiresIn * 1000\<close>, a product of double-precision numbers, which is not
  computed here. The type \<open>'n\<close> stands for the values the field \<^verbatim>\<open>expiresInMs\<close> can hold, and
  two parameters stand for what JavaScript does with them: \<open>timesThousand\<close> is the product for
  what the body holds at \<^verbatim>\<open>tokens.expiresIn\<close> (absent: the product is \<^verbatim>\<open>NaN\<close>); \<open>readBack\<close> is
  the value \<^verbatim>\<open>JSON.parse\<close> reads after \<^verbatim>\<open>JSON.stringify\<close> has written one (a finite number is
  read back as it is, \<^verbatim>\<open>NaN\<close> and the infinities are written as \<^verbatim>\<open>null\<close>).
\<close>

record 'n numbers =
  timesThousand :: "string option \<Rightarrow> 'n"
  readBack :: "'n \<Rightarrow> 'n"

text \<open>\<^verbatim>\<open>interface ContinueAuthenticationSession extends AuthenticationSession\<close>: it keeps the
  lifetime the server sent and no expiry time.\<close>

record 'n basicSession =
  b_id :: string
  b_accessToken :: string
  b_account :: account
  b_scopes :: "string list"
  b_refreshToken :: string
  expiresInMs :: 'n
  b_loginNeeded :: bool

record 'n basicRefreshed =
  b_new_accessToken :: string
  b_new_refreshToken :: string
  b_new_expiresInMs :: 'n

text \<open>A record that was built in this call, as the store gives it back once it is written.\<close>

definition written :: "'n numbers \<Rightarrow> 'n basicSession \<Rightarrow> 'n basicSession" where
  "written num s = s\<lparr>expiresInMs := readBack num (expiresInMs s)\<rparr>"

definition createSession_basic ::
  "'n numbers \<Rightarrow> 'n basicSession world \<Rightarrow> string list
     \<Rightarrow> (error + 'n basicSession) \<times> 'n basicSession world" where
  "createSession_basic num w scopes_arg =
     (case showInputBox w ''Enter LDAP username'' of
        (uname, w1) \<Rightarrow>
          (case showInputBox w1 ''Enter LDAP password'' of
             (password, w2) \<Rightarrow>
               if falsy uname \<or> falsy password
               then (Inl (Error ''Username and password required''), w2)
               else
                 (case fetch w2 (PostLogin (orElse uname '''') (orElse password '''')) of
                    (Rejects, w3) \<Rightarrow> (Inl FetchError, w3)
                  | (Response ok b, w3) \<Rightarrow>
                      if \<not> ok then (Inl (Error ''LDAP authentication failed''), w3)
                      else
                        (case authData b of
                           Inl e \<Rightarrow> (Inl e, w3)
                         | Inr data \<Rightarrow>
                             (let s = \<lparr>b_id = orElse uname '''',
                                       b_accessToken = tokens_accessToken (tokens data),
                                       b_account =
                                         \<lparr>account_id = orElse uname '''',
                                          label = orElse (Some (displayName (user data)))
                                                    (orElse uname '''')\<rparr>,
                                       b_scopes = [],
                                       b_refreshToken =
                                         orElse (tokens_refreshToken (tokens data)) '''',
                                       expiresInMs =
                                         timesThousand num (tokens_expiresIn (tokens data)),
                                       b_loginNeeded = False\<rparr>
                              in (Inr s, storeSessions w3 [written num s]))))))"

text \<open>No check of \<^verbatim>\<open>session\<close> stands before the \<^verbatim>\<open>splice\<close> here; only the event depends on it.
  The records come from the store and are written as they were read.\<close>

definition removeSession_basic ::
  "'n basicSession world \<Rightarrow> string \<Rightarrow> (error + unit) \<times> 'n basicSession world" where
  "removeSession_basic w sessionId =
     (case getSessions w of
        (Inl e, w1) \<Rightarrow> (Inl e, w1)
      | (Inr sessions, w1) \<Rightarrow>
          (let sessionIdx = findIndex (\<lambda>s. b_id s = sessionId) sessions;
               found = elemAt sessions sessionIdx;
               w2 = storeSessions w1 (splice_js sessions sessionIdx 1)
           in case found of
                Some s \<Rightarrow> (Inr (), fire w2 \<lparr>added = [], removed = [s], changed = []\<rparr>)
              | None \<Rightarrow> (Inr (), w2)))"

definition refreshSession_basic ::
  "'n numbers \<Rightarrow> 'n basicSession world \<Rightarrow> string
     \<Rightarrow> (error + 'n basicRefreshed) \<times> 'n basicSession world" where
  "refreshSession_basic num w token =
     (case fetch w (PostRefresh token) of
        (Rejects, w1) \<Rightarrow> (Inl FetchError, w1)
      | (Response ok b, w1) \<Rightarrow>
          if \<not> ok then (Inl (Error ''Token refresh failed''), w1)
          else (case authData b of
                  Inl e \<Rightarrow> (Inl e, w1)
                | Inr data \<Rightarrow>
                    (Inr \<lparr>b_new_accessToken = tokens_accessToken (tokens data),
                          b_new_refreshToken = orElse (tokens_refreshToken (tokens data)) token,
                          b_new_expiresInMs =
                            timesThousand num (tokens_expiresIn (tokens data))\<rparr>, w1)))"

text \<open>The \<^verbatim>\<open>catch\<close> block of this loop only logs: a record whose refresh fails is not pushed.\<close>

fun sweep_basic ::
  "'n numbers \<Rightarrow> 'n basicSession world \<Rightarrow> 'n basicSession list \<Rightarrow> 'n basicSession list
     \<Rightarrow> 'n basicSession list \<times> 'n basicSession world" where
  "sweep_basic num w [] refreshedSessions = (refreshedSessions, w)"
| "sweep_basic num w (s # rest) refreshedSessions =
     (case refreshSession_basic num w (b_refreshToken s) of
        (Inr r, w1) \<Rightarrow>
          sweep_basic num w1 rest
            (refreshedSessions @
               [s\<lparr>b_accessToken := b_new_accessToken r, b_refreshToken := b_new_refreshToken r,
                  expiresInMs := b_new_expiresInMs r\<rparr>])
      | (Inl e, w1) \<Rightarrow> sweep_basic num w1 rest refreshedSessions)"

text \<open>Every record this sweep stores carries a lifetime computed in this call.\<close>

definition refreshSessions_basic ::
  "'n numbers \<Rightarrow> 'n basicSession world \<Rightarrow> (error + unit) \<times> 'n basicSession world" where
  "refreshSessions_basic num w =
     (if isRefreshing w then (Inr (), w)
      else
        (case getSessions (w\<lparr>isRefreshing := True\<rparr>) of
           (Inl e, w1) \<Rightarrow> (Inl e, w1\<lparr>isRefreshing := False\<rparr>)
         | (Inr sessions, w1) \<Rightarrow>
             (case sweep_basic num w1 sessions [] of
                (refreshedSessions, w2) \<Rightarrow>
                  (Inr (),
                   (if length refreshedSessions > 0
                    then storeSessions w2 (map (written num) refreshedSessions)
                    else w2)\<lparr>isRefreshing := False\<rparr>))))"

section \<open>The token accessor\<close>

record getSessionOptions =
  createIfNone :: bool

text \<open>Modelled from the spec: the host authentication registry
  (\<^verbatim>\<open>vscode.authentication.getSession\<close>, not among the sources). The provider is registered
  under \<^verbatim>\<open>"ldap"\<close>; the registry asks it for its sessions and surfaces the first one, and
  calls \<^verbatim>\<open>createSession\<close> only when there is none and \<^verbatim>\<open>createIfNone\<close> is set.\<close>

definition authentication_getSession ::
  "session world \<Rightarrow> string \<Rightarrow> string list \<Rightarrow> getSessionOptions
     \<Rightarrow> (error + session option) \<times> session world" where
  "authentication_getSession w providerId scopes_arg options =
     (if providerId \<noteq> ''ldap'' then (Inl (Error ''No authentication provider''), w)
      else
        (case getSessions w of
           (Inl e, w1) \<Rightarrow> (Inl e, w1)
         | (Inr (s # others), w1) \<Rightarrow> (Inr (Some s), w1)
         | (Inr [], w1) \<Rightarrow>
             if createIfNone options then
               (case createSession w1 scopes_arg of
                  (Inl e, w2) \<Rightarrow> (Inl e, w2)
                | (Inr s, w2) \<Rightarrow> (Inr (Some s), w2))
             else (Inr None, w1)))"

text \<open>\<^verbatim>\<open>getUserToken\<close> of \<^verbatim>\<open>stubs/auth.ts\<close>. \<open>userToken\<close> is what
  \<^verbatim>\<open>settings.get<string | null>("userToken", null)\<close> returns.\<close>

definition getUserToken :: "session world \<Rightarrow> string option \<Rightarrow> (error + string) \<times> session world" where
  "getUserToken w userToken =
     (case authentication_getSession w ''ldap'' [] \<lparr>createIfNone = False\<rparr> of
        (Inl e, w1) \<Rightarrow> (Inl e, w1)
      | (Inr (Some s), w1) \<Rightarrow> (Inr (accessToken s), w1)
      | (Inr None, w1) \<Rightarrow>
          if \<not> falsy userToken then (Inr (orElse userToken ''''), w1)
          else (Inl (Error ''No authentication token found''), w1))"

section \<open>Notions used in the statements\<close>

text \<open>The error with which a login attempt that receives this reply fails; \<open>None\<close> when the
  attempt succeeds.\<close>

definition loginError :: "reply \<Rightarrow> error option" where
  "loginError r =
     (case r of
        Rejects \<Rightarrow> Some FetchError
      | Response ok b \<Rightarrow>
          if ok then (case authData b of Inl e \<Rightarrow> Some e | Inr data \<Rightarrow> None)
          else Some (Error (orElse (errorDetail b) ''Invalid credentials'')))"

text \<open>The world after the two input boxes of a pass of the login loop.\<close>

definition prompted :: "session world \<Rightarrow> nat \<Rightarrow> session world" where
  "prompted w a =
     w\<lparr>inputs := stl (stl (inputs w)),
       trace := trace w @ [InputBox (if a = 0 then ''Enter LDAP username''
                                     else ''Invalid credentials. Enter LDAP username''),
                           InputBox ''Enter LDAP password'']\<rparr>"

text \<open>The world after a pass of the login loop that failed and showed the message \<open>msg\<close>.\<close>

definition retried :: "session world \<Rightarrow> nat \<Rightarrow> string \<Rightarrow> session world" where
  "retried w a msg =
     (prompted w a)\<lparr>replies := stl (replies w),
       trace := trace (prompted w a) @
         [Fetch (PostLogin (orElse (shd (inputs w)) '''') (orElse (shd (stl (inputs w))) '''')),
          ErrorMessage msg]\<rparr>"

text \<open>The world after the last pass of the login loop, when it failed.\<close>

definition gaveUp :: "session world \<Rightarrow> nat \<Rightarrow> session world" where
  "gaveUp w a =
     (prompted w a)\<lparr>replies := stl (replies w),
       trace := trace (prompted w a) @
         [Fetch (PostLogin (orElse (shd (inputs w)) '''') (orElse (shd (stl (inputs w))) ''''))]\<rparr>"

text \<open>The state in which a sweep, started in \<open>w\<close> on the stored list \<open>ss\<close>, has visited the
  first \<open>i\<close> records: the flag is set, the list is loaded, and the loop has run \<open>i\<close> times.\<close>

definition reaches :: "session world \<Rightarrow> session list \<Rightarrow> nat \<Rightarrow> session world" where
  "reaches w ss i = snd (sweep (snd (getSessions (w\<lparr>isRefreshing := True\<rparr>))) (take i ss) [])"

text \<open>The store holds no more than one record.\<close>

definition atMostOne :: "'s world \<Rightarrow> bool" where
  "atMostOne w = (case secrets w ''ldap.sessions'' of
                    Some (Json ss) \<Rightarrow> length ss \<le> 1 | _ \<Rightarrow> True)"

section \<open>Example states\<close>

definition idle :: "'s world" where
  "idle = \<lparr>secrets = Map.empty, isRefreshing = False, replies = sconst Rejects,
            clock = sconst 0, inputs = sconst None, trace = []\<rparr>"

definition holding :: "'s list \<Rightarrow> 's world" where
  "holding ss = idle\<lparr>secrets := [''ldap.sessions'' \<mapsto> Json ss]\<rparr>"

text \<open>The server's next replies are \<open>rs\<close>; after them every request rejects.\<close>

definition answering :: "reply list \<Rightarrow> 's world \<Rightarrow> 's world" where
  "answering rs w = w\<lparr>replies := rs @- sconst Rejects\<rparr>"

text \<open>The user's next entries are \<open>xs\<close>; after them every input box is dismissed.\<close>

definition typing :: "string list \<Rightarrow> 's world \<Rightarrow> 's world" where
  "typing xs w = w\<lparr>inputs := map Some xs @- sconst None\<rparr>"

text \<open>Every reading of the clock is \<open>t\<close>.\<close>

definition timed :: "int \<Rightarrow> 's world \<Rightarrow> 's world" where
  "timed t w = w\<lparr>clock := sconst t\<rparr>"

definition alice :: session where
  "alice = \<lparr>session_id = ''alice'', accessToken = ''T1'',
             account = \<lparr>account_id = ''alice'', label = ''Alice''\<rparr>, scopes = [],
             refreshToken = ''R1'', expiresAt = 1000, loginNeeded = False\<rparr>"

definition bob :: session where
  "bob = \<lparr>session_id = ''bob'', accessToken = ''T2'',
           account = \<lparr>account_id = ''bob'', label = ''Bob''\<rparr>, scopes = [],
           refreshToken = ''R2'', expiresAt = 5000, loginNeeded = False\<rparr>"

text \<open>The record \<^verbatim>\<open>createSession\<close> builds in \<open>carolLogsIn\<close>.\<close>

definition carol :: session where
  "carol = \<lparr>session_id = ''carol'', accessToken = ''T9'',
             account = \<lparr>account_id = ''carol'', label = ''Alice''\<rparr>, scopes = [],
             refreshToken = '''', expiresAt = 602000, loginNeeded = False\<rparr>"

text \<open>A well-formed answer of the server that omits the refresh token.\<close>

definition granted :: ldapAuthResponse where
  "granted = \<lparr>success = True,
               user = \<lparr>username = ''alice'', email = ''alice@example.org'', displayName = ''Alice'',
                       groups = []\<rparr>,
               tokens = \<lparr>tokens_accessToken = ''T9'', tokens_refreshToken = None,
                         tokens_expiresIn = Some ''600''\<rparr>\<rparr>"

text \<open>The server refuses a login and gives no detail.\<close>

definition refused :: reply where
  "refused = Response False (ErrorBody None)"

definition corruptStore :: "session world" where
  "corruptStore = idle\<lparr>secrets := [''ldap.sessions'' \<mapsto> Unparsable]\<rparr>"

text \<open>Two sessions are stored and every reading of the clock is 2000: \<open>alice\<close> has expired, \<open>bob\<close>
  has not. Every request rejects.\<close>

definition sweeping :: "session world" where
  "sweeping = timed 2000 (holding [alice, bob])"

text \<open>The sweep of \<open>sweeping\<close> after its third step: it waits for the refresh of \<open>alice\<close>.\<close>

definition midSweep :: "session world" where
  "midSweep = sweeping\<lparr>isRefreshing := True, trace := [SecretGet ''ldap.sessions'']\<rparr>"

text \<open>The user enters a name and a password three times; the server refuses each login.\<close>

definition lockedOut :: "session world" where
  "lockedOut = answering [refused, refused, refused]
                 (typing [''alice'', ''pw1'', ''alice'', ''pw2'', ''alice'', ''pw3''] idle)"

text \<open>The first login is refused, the second request rejects, the third login is granted.\<close>

definition thirdTime :: "session world" where
  "thirdTime = answering [refused, Rejects, Response True (AuthBody granted)]
                 (typing [''alice'', ''pw1'', ''alice'', ''pw2'', ''alice'', ''pw3''] idle)"

text \<open>\<open>alice\<close> is stored; a user enters \<open>carol\<close> and a password at time 2000 and the server
  grants the login.\<close>

definition carolLogsIn :: "session world" where
  "carolLogsIn = answering [Response True (AuthBody granted)]
                   (typing [''carol'', ''pw''] (timed 2000 (holding [alice])))"

text \<open>Numbers as far as the examples need them: an integer that a double holds exactly,
  \<^verbatim>\<open>NaN\<close>, and the \<^verbatim>\<open>null\<close> that is read back for it. The product is given for the lifetime
  \<^verbatim>\<open>600\<close> and for an absent one, the two that the examples use.\<close>

datatype number = Num int | NaN | Null

definition exampleNumbers :: "number numbers" where
  "exampleNumbers =
     \<lparr>timesThousand = (\<lambda>sent. if sent = Some ''600'' then Num 600000 else NaN),
      readBack = (\<lambda>n. case n of NaN \<Rightarrow> Null | _ \<Rightarrow> n)\<rparr>"

definition basic_alice :: "number basicSession" where
  "basic_alice = \<lparr>b_id = ''alice'', b_accessToken = ''T1'',
             b_account = \<lparr>account_id = ''alice'', label = ''Alice''\<rparr>, b_scopes = [],
             b_refreshToken = ''R1'', expiresInMs = Num 600000, b_loginNeeded = False\<rparr>"

definition basic_bob :: "number basicSession" where
  "basic_bob = \<lparr>b_id = ''bob'', b_accessToken = ''T2'',
             b_account = \<lparr>account_id = ''bob'', label = ''Bob''\<rparr>, b_scopes = [],
             b_refreshToken = ''R2'', expiresInMs = Num 600000, b_loginNeeded = False\<rparr>"

text \<open>Nothing is stored; a user enters \<open>carol\<close> and a password at time 2000 and the server
  grants the login.\<close>

definition newcomer :: "session world" where
  "newcomer = answering [Response True (AuthBody granted)]
                (typing [''carol'', ''pw''] (timed 2000 idle))"

text \<open>The same login at the basic provider, and the record its \<^verbatim>\<open>createSession\<close> builds.\<close>

definition basic_newcomer :: "number basicSession world" where
  "basic_newcomer = answering [Response True (AuthBody granted)]
                      (typing [''carol'', ''pw''] idle)"

definition basic_carol :: "number basicSession" where
  "basic_carol = \<lparr>b_id = ''carol'', b_accessToken = ''T9'',
             b_account = \<lparr>account_id = ''carol'', label = ''Alice''\<rparr>, b_scopes = [],
             b_refreshToken = '''', expiresInMs = Num 600000, b_loginNeeded = False\<rparr>"

section \<open>Arrays, traces and storage\<close>

lemma findIndex_range: "- 1 \<le> findIndex p xs \<and> findIndex p xs < int (length xs)"
  by (induction xs) (auto simp: Let_def)

lemma findIndex_none: "\<forall>x\<in>set xs. \<not> p x \<Longrightarrow> findIndex p xs = - 1"
  by (induction xs) (auto simp: Let_def)

lemma findIndex_found:
  "\<exists>x\<in>set xs. p x \<Longrightarrow>
     \<exists>i. findIndex p xs = int i \<and> i < length xs \<and> p (xs ! i) \<and> (\<forall>j<i. \<not> p (xs ! j))"
proof (induction xs)
  case Nil
  then show ?case by simp
next
  case (Cons x xs)
  show ?case
  proof (cases "p x")
    case True
    then show ?thesis by (intro exI[of _ 0]) simp
  next
    case False
    with Cons.prems have "\<exists>x\<in>set xs. p x" by simp
    from Cons.IH[OF this] obtain i where
      i: "findIndex p xs = int i" "i < length xs" "p (xs ! i)" "\<forall>j<i. \<not> p (xs ! j)"
      by blast
    have "\<forall>j<Suc i. \<not> p ((x # xs) ! j)"
      using False i(4) by (auto simp: nth_Cons split: nat.splits)
    with False i show ?thesis
      by (intro exI[of _ "Suc i"]) (simp add: Let_def)
  qed
qed

lemma splice_js_one: "i < length xs \<Longrightarrow> splice_js xs (int i) (Suc 0) = take i xs @ drop (Suc i) xs"
  by (simp add: splice_js_def Let_def)

lemma splice_js_last: "splice_js xs (- 1) (Suc 0) = butlast xs"
  by (cases xs rule: rev_cases) (auto simp: splice_js_def Let_def butlast_conv_take)

lemma elemAt_nth: "i < length xs \<Longrightarrow> elemAt xs (int i) = Some (xs ! i)"
  by (simp add: elemAt_def)

lemma elemAt_neg: "elemAt xs (- 1) = None"
  by (simp add: elemAt_def)

lemma calls_append: "calls (xs @ ys) = calls xs @ calls ys"
  by (induction xs rule: calls.induct) simp_all

lemma events_append: "events (xs @ ys) = events xs @ events ys"
  by (induction xs rule: events.induct) simp_all

lemma prompts_append: "prompts (xs @ ys) = prompts xs @ prompts ys"
  by (induction xs rule: prompts.induct) simp_all

lemma falsy_orElse: "\<not> falsy v \<Longrightarrow> v = Some (orElse v d) \<and> orElse v d \<noteq> []"
  by (cases v) (auto simp: falsy_def orElse_def)

lemma orElse_empty: "orElse x '''' = (case x of None \<Rightarrow> '''' | Some t \<Rightarrow> t)"
  by (cases x) (simp_all add: orElse_def)

lemma snth_2: "s !! 2 = shd (stl (stl s))" and snth_3: "s !! 3 = shd (stl (stl (stl s)))"
  and snth_4: "s !! 4 = shd (stl (stl (stl (stl s))))"
  and snth_5: "s !! 5 = shd (stl (stl (stl (stl (stl s)))))"
  and snth_1: "s !! 1 = shd (stl s)"
  by (simp_all add: eval_nat_numeral)

lemma getSessions_world: "snd (getSessions w) = w\<lparr>trace := trace w @ [SecretGet ''ldap.sessions'']\<rparr>"
  by (simp add: getSessions_def secretStorage_get_def split: option.splits stored.splits)

lemma getSessions_value:
  "fst (getSessions w) =
     (case secrets w ''ldap.sessions'' of
        None \<Rightarrow> Inr [] | Some Empty \<Rightarrow> Inr [] | Some Unparsable \<Rightarrow> Inl SyntaxError
      | Some (Json ss) \<Rightarrow> Inr ss)"
  by (simp add: getSessions_def secretStorage_get_def  JSON_parse_def
      split: option.splits stored.splits)

lemma getSessions_eq:
  "fst (getSessions w) = Inr ss \<Longrightarrow>
     getSessions w = (Inr ss, w\<lparr>trace := trace w @ [SecretGet ''ldap.sessions'']\<rparr>)"
  using getSessions_world[of w] by (cases "getSessions w") simp

lemma getSessions_after_store: "fst (getSessions (storeSessions w ss)) = Inr ss"
  by (simp add: getSessions_value storeSessions_def secretStorage_store_def JSON_stringify_def)

lemma getSessions_fire: "fst (getSessions (fire w e)) = fst (getSessions w)"
  by (simp add: getSessions_value fire_def)

lemma getSessions_flag: "isRefreshing (snd (getSessions w)) = isRefreshing w"
  by (simp add: getSessions_world)

section \<open>Reading the store\<close>

text \<open>C9, as amended. \<^verbatim>\<open>getSessions\<close> returns the empty list when nothing (or the empty string)
  is stored under \<^verbatim>\<open>ldap.sessions\<close>. Stored text that cannot be parsed is not treated as
  empty: \<^verbatim>\<open>getSessions\<close> fails with the parse error, \<^verbatim>\<open>removeSession\<close> and a sweep fail
  with it too, and only \<^verbatim>\<open>handleTokenExpired\<close> absorbs it, returning \<open>False\<close> without a
  request.\<close>

theorem getSessions_unparsable:
  fixes w :: "session world"
  shows "((secrets w ''ldap.sessions'' = None \<or> secrets w ''ldap.sessions'' = Some Empty) \<longrightarrow>
            fst (getSessions w) = Inr []) \<and>
         (secrets w ''ldap.sessions'' = Some Unparsable \<longrightarrow>
            fst (getSessions w) = Inl SyntaxError \<and>
            fst (removeSession w sid) = Inl SyntaxError \<and>
            (\<not> isRefreshing w \<longrightarrow> fst (refreshSessions w) = Inl SyntaxError) \<and>
            fst (handleTokenExpired w) = False \<and>
            calls (trace (snd (handleTokenExpired w))) = calls (trace w))"
proof -
  have a: "fst (getSessions w) = Inr []"
    if "secrets w ''ldap.sessions'' = None \<or> secrets w ''ldap.sessions'' = Some Empty"
    using that by (auto simp: getSessions_value)
  have b: "getSessions v = (Inl SyntaxError, v\<lparr>trace := trace v @ [SecretGet ''ldap.sessions'']\<rparr>)"
    if "secrets v ''ldap.sessions'' = Some Unparsable" for v :: "session world"
    using that getSessions_value[of v] getSessions_world[of v]
    by (cases "getSessions v") simp
  have c: "calls (es @ [SecretGet k]) = calls es" for es :: "session effect list" and k
    by (induction es rule: calls.induct) simp_all
  show ?thesis
    using a b[of w] b[of "w\<lparr>isRefreshing := True\<rparr>"]
    by (simp add: removeSession_def refreshSessions_def handleTokenExpired_def c)
qed

text \<open>The amended claim at a store that holds unparsable text, and at an empty store.\<close>

theorem getSessions_unparsable_witness:
  "secrets corruptStore ''ldap.sessions'' = Some Unparsable \<and>
   \<not> isRefreshing corruptStore \<and>
   fst (getSessions corruptStore) = Inl SyntaxError \<and>
   fst (removeSession corruptStore ''alice'') = Inl SyntaxError \<and>
   fst (refreshSessions corruptStore) = Inl SyntaxError \<and>
   fst (handleTokenExpired corruptStore) = False \<and>
   secrets (idle :: session world) ''ldap.sessions'' = None \<and>
   fst (getSessions (idle :: session world)) = Inr []"
  using getSessions_unparsable[of corruptStore "''alice''"] getSessions_unparsable[of idle]
  by (simp add: corruptStore_def idle_def)

text \<open>C9 as stated fails: reading a store that holds unparsable text does not give the empty
  list.\<close>

theorem getSessions_unparsable_counterexample:
  "fst (getSessions corruptStore) \<noteq> Inr []"
  by (simp add: getSessions_value corruptStore_def idle_def)

section \<open>Removing a session\<close>

text \<open>In the provider, \<^verbatim>\<open>removeSession\<close> on an id that is not in the stored list only reads the
  store: nothing is written, no request is sent, no event is fired.\<close>

lemma removeSession_unknown_id:
  assumes "fst (getSessions w) = Inr ss" and "sid \<notin> session_id ` set ss"
  shows "removeSession w sid = (Inr (), w\<lparr>trace := trace w @ [SecretGet ''ldap.sessions'']\<rparr>)"
proof -
  have "findIndex (\<lambda>s. session_id s = sid) ss = - 1"
    using assms(2) by (intro findIndex_none) auto
  moreover have "getSessions w = (Inr ss, w\<lparr>trace := trace w @ [SecretGet ''ldap.sessions'']\<rparr>)"
    using assms(1) getSessions_world[of w] by (cases "getSessions w") simp
  ultimately show ?thesis
    by (simp add: removeSession_def elemAt_neg)
qed

text \<open>C8. \<^verbatim>\<open>removeSession\<close> on an id that is in the stored list removes the first record with
  that id and saves the remaining list before anything is sent; it then posts the logout
  request only when the record's refresh token is not empty, and fires one event whose
  \<open>removed\<close> holds the record. This holds whatever the logout request ends with (the reply
  stream of \<open>w\<close> is arbitrary, so it may reject or time out), and the call returns normally.\<close>

theorem removeSession_known_id:
  assumes "fst (getSessions w) = Inr ss" and "sid \<in> session_id ` set ss"
  shows "\<exists>i s. i < length ss \<and> ss ! i = s \<and> session_id s = sid \<and>
           (\<forall>j<i. session_id (ss ! j) \<noteq> sid) \<and>
           fst (removeSession w sid) = Inr () \<and>
           trace (snd (removeSession w sid)) =
             trace w @ [SecretGet ''ldap.sessions'',
                        SecretStore ''ldap.sessions'' (Json (take i ss @ drop (Suc i) ss))]
               @ (if refreshToken s \<noteq> [] then [Fetch (PostLogout (refreshToken s))] else [])
               @ [Fire \<lparr>added = [], removed = [s], changed = []\<rparr>] \<and>
           fst (getSessions (snd (removeSession w sid))) = Inr (take i ss @ drop (Suc i) ss)"
proof -
  from assms(2) have "\<exists>x\<in>set ss. session_id x = sid" by auto
  from findIndex_found[of ss "\<lambda>s. session_id s = sid", OF this] obtain i where
    i: "findIndex (\<lambda>s. session_id s = sid) ss = int i" "i < length ss"
       "session_id (ss ! i) = sid" "\<forall>j<i. session_id (ss ! j) \<noteq> sid"
    by blast
  have g: "getSessions w = (Inr ss, w\<lparr>trace := trace w @ [SecretGet ''ldap.sessions'']\<rparr>)"
    using assms(1) getSessions_world[of w] by (cases "getSessions w") simp
  have r: "removeSession w sid =
      (let w1 = w\<lparr>trace := trace w @ [SecretGet ''ldap.sessions'']\<rparr>;
           w2 = storeSessions w1 (take i ss @ drop (Suc i) ss);
           w3 = (if refreshToken (ss ! i) \<noteq> []
                 then snd (fetch w2 (PostLogout (refreshToken (ss ! i)))) else w2)
       in (Inr (), fire w3 \<lparr>added = [], removed = [ss ! i], changed = []\<rparr>))"
    using i(1,2) g by (simp add: removeSession_def elemAt_nth splice_js_one Let_def)
  have "fst (removeSession w sid) = Inr ()"
    by (simp add: r Let_def)
  moreover have "trace (snd (removeSession w sid)) =
             trace w @ [SecretGet ''ldap.sessions'',
                        SecretStore ''ldap.sessions'' (Json (take i ss @ drop (Suc i) ss))]
               @ (if refreshToken (ss ! i) \<noteq> [] then [Fetch (PostLogout (refreshToken (ss ! i)))] else [])
               @ [Fire \<lparr>added = [], removed = [ss ! i], changed = []\<rparr>]"
    by (simp add: r Let_def fire_def fetch_def storeSessions_def secretStorage_store_def
        JSON_stringify_def)
  moreover have "fst (getSessions (snd (removeSession w sid))) = Inr (take i ss @ drop (Suc i) ss)"
    by (simp add: r Let_def getSessions_value fire_def fetch_def storeSessions_def
        secretStorage_store_def JSON_stringify_def)
  ultimately show ?thesis using i by blast
qed

text \<open>Two stored sessions, the server unreachable (every request rejects): removing
  \<open>alice\<close> leaves \<open>bob\<close>, and the event is fired after the failed logout.\<close>

theorem removeSession_known_id_witness:
  "fst (getSessions (holding [alice, bob])) = Inr [alice, bob] \<and>
   ''alice'' \<in> session_id ` set [alice, bob] \<and>
   fst (removeSession (holding [alice, bob]) ''alice'') = Inr () \<and>
   trace (snd (removeSession (holding [alice, bob]) ''alice'')) =
     [SecretGet ''ldap.sessions'', SecretStore ''ldap.sessions'' (Json [bob]),
      Fetch (PostLogout ''R1''), Fire \<lparr>added = [], removed = [alice], changed = []\<rparr>] \<and>
   fst (getSessions (snd (removeSession (holding [alice, bob]) ''alice''))) = Inr [bob]"
proof -
  have h1: "fst (getSessions (holding [alice, bob])) = Inr [alice, bob]"
    by (simp add: getSessions_value holding_def idle_def)
  have h2: "''alice'' \<in> session_id ` set [alice, bob]"
    by (simp add: alice_def)
  from removeSession_known_id[OF h1 h2] obtain i s where
    ex: "i < length [alice, bob]" "[alice, bob] ! i = s" "session_id s = ''alice''"
        "fst (removeSession (holding [alice, bob]) ''alice'') = Inr ()"
        "trace (snd (removeSession (holding [alice, bob]) ''alice'')) =
           trace (holding [alice, bob]) @ [SecretGet ''ldap.sessions'',
              SecretStore ''ldap.sessions'' (Json (take i [alice, bob] @ drop (Suc i) [alice, bob]))]
           @ (if refreshToken s \<noteq> [] then [Fetch (PostLogout (refreshToken s))] else [])
           @ [Fire \<lparr>added = [], removed = [s], changed = []\<rparr>]"
        "fst (getSessions (snd (removeSession (holding [alice, bob]) ''alice''))) =
           Inr (take i [alice, bob] @ drop (Suc i) [alice, bob])"
    by blast
  have "i = 0"
    using ex(1,2,3) by (cases i) (auto simp: bob_def less_Suc_eq)
  with ex have "s = alice" by simp
  from ex(4,5,6) \<open>i = 0\<close> \<open>s = alice\<close> h1 h2 show ?thesis
    by (simp add: holding_def idle_def alice_def)
qed

text \<open>C7 fails in the basic provider. One session is stored; \<^verbatim>\<open>removeSession\<close> with an id
  that is not in the list finds index \<open>-1\<close>, \<^verbatim>\<open>splice(-1, 1)\<close> removes the last record, and
  the shortened list is stored: the store is empty afterwards, and no event is fired.\<close>

theorem removeSession_basic_unknown_id:
  "fst (getSessions (holding [basic_alice])) = Inr [basic_alice] \<and>
   ''bob'' \<notin> b_id ` set [basic_alice] \<and>
   fst (removeSession_basic (holding [basic_alice]) ''bob'') = Inr () \<and>
   fst (getSessions (snd (removeSession_basic (holding [basic_alice]) ''bob''))) = Inr [] \<and>
   events (trace (snd (removeSession_basic (holding [basic_alice]) ''bob''))) = []"
  by (simp add: removeSession_basic_def getSessions_def
      secretStorage_get_def  JSON_parse_def holding_def idle_def
      elemAt_def splice_js_def storeSessions_def secretStorage_store_def
      JSON_stringify_def basic_alice_def Let_def)

section \<open>Recovery after a rejected token\<close>

lemma refreshSession_ok:
  "shd (replies w) = Response True (AuthBody data) \<Longrightarrow>
     refreshSession w tok =
       (Inr \<lparr>new_accessToken = tokens_accessToken (tokens data),
             new_refreshToken = orElse (tokens_refreshToken (tokens data)) tok,
             new_expiresAt = shd (clock w) + 600000\<rparr>,
        w\<lparr>replies := stl (replies w), trace := trace w @ [Fetch (PostRefresh tok)],
          clock := stl (clock w)\<rparr>)"
  by (simp add: refreshSession_def fetch_def authData_def Date_now_def ACCESS_TOKEN_TTL_MINUTES_def)

lemma refreshSession_fail:
  "\<forall>data. shd (replies w) \<noteq> Response True (AuthBody data) \<Longrightarrow>
     \<exists>e. refreshSession w tok =
       (Inl e, w\<lparr>replies := stl (replies w), trace := trace w @ [Fetch (PostRefresh tok)]\<rparr>)"
  by (cases "shd (replies w)")
     (auto simp: refreshSession_def fetch_def authData_def split: body.splits)

lemma refreshSession_flag: "isRefreshing (snd (refreshSession w tok)) = isRefreshing w"
  by (cases "shd (replies w)")
     (auto simp: refreshSession_def fetch_def Date_now_def split: sum.splits)

lemma refreshSession_trace:
  "trace (snd (refreshSession w tok)) = trace w @ [Fetch (PostRefresh tok)]"
  by (cases "shd (replies w)")
     (auto simp: refreshSession_def fetch_def Date_now_def split: sum.splits)

text \<open>C3. \<^verbatim>\<open>handleTokenExpired\<close> (the spec's handleAuthRejected), on a store that parses to \<open>ss\<close>:
  with the empty list it returns \<open>False\<close> with no request and no event; when the server
  grants the refresh of the first session, it returns \<open>True\<close>, the store afterwards holds the
  refreshed record alone, and exactly one event is fired, with that record as \<open>changed\<close>;
  when the refresh fails in any way, it returns \<open>False\<close>, the store holds the empty list, and
  one event is fired with the session as \<open>removed\<close>.\<close>

theorem handleTokenExpired_outcomes:
  assumes "fst (getSessions w) = Inr ss"
  shows "(ss = [] \<longrightarrow>
            fst (handleTokenExpired w) = False \<and>
            calls (trace (snd (handleTokenExpired w))) = calls (trace w) \<and>
            events (trace (snd (handleTokenExpired w))) = events (trace w)) \<and>
         (\<forall>s others data. ss = s # others \<and> shd (replies w) = Response True (AuthBody data) \<longrightarrow>
            (let s' = s\<lparr>accessToken := tokens_accessToken (tokens data),
                        refreshToken := orElse (tokens_refreshToken (tokens data)) (refreshToken s),
                        expiresAt := shd (clock w) + 600000\<rparr>
             in fst (handleTokenExpired w) = True \<and>
                fst (getSessions (snd (handleTokenExpired w))) = Inr [s'] \<and>
                events (trace (snd (handleTokenExpired w))) =
                  events (trace w) @ [\<lparr>added = [], removed = [], changed = [s']\<rparr>] \<and>
                calls (trace (snd (handleTokenExpired w))) =
                  calls (trace w) @ [PostRefresh (refreshToken s)])) \<and>
         (\<forall>s others. ss = s # others \<and>
              (\<forall>data. shd (replies w) \<noteq> Response True (AuthBody data)) \<longrightarrow>
            fst (handleTokenExpired w) = False \<and>
            fst (getSessions (snd (handleTokenExpired w))) = Inr [] \<and>
            secrets (snd (handleTokenExpired w)) ''ldap.sessions'' = Some (Json []) \<and>
            events (trace (snd (handleTokenExpired w))) =
              events (trace w) @ [\<lparr>added = [], removed = [s], changed = []\<rparr>] \<and>
            calls (trace (snd (handleTokenExpired w))) =
              calls (trace w) @ [PostRefresh (refreshToken s)])"
proof (intro conjI allI impI)
  let ?w1 = "w\<lparr>trace := trace w @ [SecretGet ''ldap.sessions'']\<rparr>"
  note g = getSessions_eq[OF assms]
  {
    assume "ss = []"
    with g have h: "handleTokenExpired w = (False, ?w1)"
      by (simp add: handleTokenExpired_def)
    show "fst (handleTokenExpired w) = False"
      and "calls (trace (snd (handleTokenExpired w))) = calls (trace w)"
      and "events (trace (snd (handleTokenExpired w))) = events (trace w)"
      by (simp_all add: h calls_append events_append)
  }
  {
    fix s others data
    assume a: "ss = s # others \<and> shd (replies w) = Response True (AuthBody data)"
    define r where "r = \<lparr>new_accessToken = tokens_accessToken (tokens data),
             new_refreshToken = orElse (tokens_refreshToken (tokens data)) (refreshToken s),
             new_expiresAt = shd (clock w) + 600000\<rparr>"
    have "shd (replies ?w1) = Response True (AuthBody data)" using a by simp
    from refreshSession_ok[OF this, of "refreshToken s"]
    have h: "handleTokenExpired w =
        (True, fire (storeSessions (?w1\<lparr>replies := stl (replies w),
                 trace := trace ?w1 @ [Fetch (PostRefresh (refreshToken s))],
                 clock := stl (clock w)\<rparr>) [withRefreshed s r])
              \<lparr>added = [], removed = [], changed = [withRefreshed s r]\<rparr>)"
      using a g by (simp add: handleTokenExpired_def r_def Let_def)
    have s': "withRefreshed s r = s\<lparr>accessToken := tokens_accessToken (tokens data),
                        refreshToken := orElse (tokens_refreshToken (tokens data)) (refreshToken s),
                        expiresAt := shd (clock w) + 600000\<rparr>"
      by (simp add: withRefreshed_def r_def)
    show "let s' = s\<lparr>accessToken := tokens_accessToken (tokens data),
                        refreshToken := orElse (tokens_refreshToken (tokens data)) (refreshToken s),
                        expiresAt := shd (clock w) + 600000\<rparr>
             in fst (handleTokenExpired w) = True \<and>
                fst (getSessions (snd (handleTokenExpired w))) = Inr [s'] \<and>
                events (trace (snd (handleTokenExpired w))) =
                  events (trace w) @ [\<lparr>added = [], removed = [], changed = [s']\<rparr>] \<and>
                calls (trace (snd (handleTokenExpired w))) =
                  calls (trace w) @ [PostRefresh (refreshToken s)]"
      unfolding Let_def s'[symmetric]
      by (simp add: h getSessions_fire getSessions_after_store)
         (simp add: fire_def storeSessions_def secretStorage_store_def calls_append events_append)
  }
  {
    fix s others
    assume a: "ss = s # others \<and> (\<forall>data. shd (replies w) \<noteq> Response True (AuthBody data))"
    then have "\<forall>data. shd (replies ?w1) \<noteq> Response True (AuthBody data)" by simp
    from refreshSession_fail[OF this, of "refreshToken s"]
    have h: "handleTokenExpired w =
        (False, fire (storeSessions (?w1\<lparr>replies := stl (replies w),
                 trace := trace ?w1 @ [Fetch (PostRefresh (refreshToken s))]\<rparr>) [])
              \<lparr>added = [], removed = [s], changed = []\<rparr>)"
      using a g by (auto simp: handleTokenExpired_def)
    show "fst (handleTokenExpired w) = False"
      and "fst (getSessions (snd (handleTokenExpired w))) = Inr []"
      and "secrets (snd (handleTokenExpired w)) ''ldap.sessions'' = Some (Json [])"
      and "events (trace (snd (handleTokenExpired w))) =
              events (trace w) @ [\<lparr>added = [], removed = [s], changed = []\<rparr>]"
      and "calls (trace (snd (handleTokenExpired w))) =
              calls (trace w) @ [PostRefresh (refreshToken s)]"
      by (simp_all add: h getSessions_fire getSessions_after_store)
         (simp_all add: fire_def storeSessions_def secretStorage_store_def JSON_stringify_def
            calls_append events_append)
  }
qed

text \<open>The three cases: an empty store, a granted refresh, a rejected refresh.\<close>

theorem handleTokenExpired_outcomes_witness:
  "fst (getSessions (idle :: session world)) = Inr [] \<and>
   fst (handleTokenExpired idle) = False \<and>
   calls (trace (snd (handleTokenExpired idle))) = [] \<and>
   fst (getSessions (answering [Response True (AuthBody granted)] (holding [alice, bob])))
     = Inr [alice, bob] \<and>
   fst (handleTokenExpired (answering [Response True (AuthBody granted)] (holding [alice, bob])))
     = True \<and>
   fst (getSessions (snd (handleTokenExpired
          (answering [Response True (AuthBody granted)] (holding [alice, bob])))))
     = Inr [alice\<lparr>accessToken := ''T9'', refreshToken := ''R1'', expiresAt := 600000\<rparr>] \<and>
   events (trace (snd (handleTokenExpired
          (answering [Response True (AuthBody granted)] (holding [alice, bob])))))
     = [\<lparr>added = [], removed = [],
         changed = [alice\<lparr>accessToken := ''T9'', refreshToken := ''R1'', expiresAt := 600000\<rparr>]\<rparr>] \<and>
   fst (getSessions (answering [Response False (ErrorBody None)] (holding [alice, bob])))
     = Inr [alice, bob] \<and>
   fst (handleTokenExpired (answering [Response False (ErrorBody None)] (holding [alice, bob])))
     = False \<and>
   fst (getSessions (snd (handleTokenExpired
          (answering [Response False (ErrorBody None)] (holding [alice, bob]))))) = Inr [] \<and>
   events (trace (snd (handleTokenExpired
          (answering [Response False (ErrorBody None)] (holding [alice, bob])))))
     = [\<lparr>added = [], removed = [alice], changed = []\<rparr>]"
proof -
  have e: "fst (getSessions (idle :: session world)) = Inr []"
    by (simp add: getSessions_value idle_def)
  have g: "fst (getSessions (answering rs (holding [alice, bob]))) = Inr [alice, bob]" for rs
    by (simp add: getSessions_value answering_def holding_def idle_def)
  show ?thesis
    using handleTokenExpired_outcomes[OF e]
      handleTokenExpired_outcomes[OF g[of "[Response True (AuthBody granted)]"]]
      handleTokenExpired_outcomes[OF g[of "[Response False (ErrorBody None)]"]]
    by (simp add: e g)
       (simp add: answering_def holding_def idle_def alice_def granted_def orElse_def Let_def)
qed

section \<open>The records of a sweep\<close>

lemma sweep_acc: "sweep w ss acc = (acc @ fst (sweep w ss []), snd (sweep w ss []))"
proof (induction ss arbitrary: w acc)
  case Nil
  then show ?case by simp
next
  case (Cons s ss)
  note IH = Cons.IH
  show ?case
    apply (simp split: prod.splits sum.splits)
    apply (intro allI impI conjI)
    using IH[of _ "acc @ [_]"] IH[of _ "[_]"]
    apply (metis append.assoc fst_conv snd_conv)+
    done
qed

lemma sweep_append:
  "sweep w (xs @ ys) acc = (case sweep w xs acc of (acc1, w1) \<Rightarrow> sweep w1 ys acc1)"
  by (induction xs arbitrary: w acc) (auto split: prod.splits sum.splits)

lemma sweep_length: "length (fst (sweep w ss acc)) = length acc + length ss"
  by (induction ss arbitrary: w acc) (auto split: prod.splits sum.splits)

lemma sweep_split:
  "sweep w (xs @ ys) [] =
     (fst (sweep w xs []) @ fst (sweep (snd (sweep w xs [])) ys []),
      snd (sweep (snd (sweep w xs [])) ys []))"
proof -
  obtain a w1 where a: "sweep w xs [] = (a, w1)" by (cases "sweep w xs []")
  have "sweep w (xs @ ys) [] = sweep w1 ys a"
    by (simp add: sweep_append a)
  also have "\<dots> = (a @ fst (sweep w1 ys []), snd (sweep w1 ys []))"
    by (rule sweep_acc)
  finally show ?thesis by (simp add: a)
qed

lemma sweep_nth:
  assumes "i < length ss"
  shows "fst (sweep w ss []) ! i = hd (fst (sweep (snd (sweep w (take i ss) [])) [ss ! i] []))"
    and "snd (sweep w (take (Suc i) ss) []) = snd (sweep (snd (sweep w (take i ss) [])) [ss ! i] [])"
proof -
  let ?wi = "snd (sweep w (take i ss) [])"
  let ?a = "fst (sweep w (take i ss) [])"
  let ?b = "fst (sweep ?wi [ss ! i] [])"
  have lb: "length ?b = 1" by (simp only: sweep_length) simp
  have la: "length ?a = i" using assms by (simp only: sweep_length) simp
  have t: "take (Suc i) ss = take i ss @ [ss ! i]"
    using assms by (simp add: take_Suc_conv_app_nth)
  have s: "sweep w (take (Suc i) ss) [] = (?a @ ?b, snd (sweep ?wi [ss ! i] []))"
    unfolding t by (rule sweep_split)
  show "snd (sweep w (take (Suc i) ss) []) = snd (sweep ?wi [ss ! i] [])"
    by (simp only: s snd_conv)
  have "ss = take (Suc i) ss @ drop (Suc i) ss" by simp
  then have "sweep w ss [] = sweep w (take (Suc i) ss @ drop (Suc i) ss) []" by simp
  then have "fst (sweep w ss []) = (?a @ ?b) @
      fst (sweep (snd (sweep w (take (Suc i) ss) [])) (drop (Suc i) ss) [])"
    by (simp only: sweep_split s fst_conv)
  then have "fst (sweep w ss []) ! i = ?b ! 0"
    using la lb by (simp add: nth_append del: sweep.simps)
  also have "\<dots> = hd ?b" using lb by (cases ?b) simp_all
  finally show "fst (sweep w ss []) ! i = hd ?b" .
qed

lemma sweep_one_unexpired:
  "shd (clock w) < expiresAt s \<Longrightarrow> sweep w [s] [] = ([s], w\<lparr>clock := stl (clock w)\<rparr>)"
  by (simp add: Date_now_def)

lemma sweep_one_failed:
  assumes "\<not> shd (clock w) < expiresAt s"
    and "\<forall>data. shd (replies w) \<noteq> Response True (AuthBody data)"
  shows "sweep w [s] [] =
     ([s], w\<lparr>clock := stl (clock w), replies := stl (replies w),
            trace := trace w @ [Fetch (PostRefresh (refreshToken s))]\<rparr>)"
proof -
  have "\<forall>data. shd (replies (w\<lparr>clock := stl (clock w)\<rparr>)) \<noteq> Response True (AuthBody data)"
    using assms(2) by simp
  from refreshSession_fail[OF this, of "refreshToken s"] assms(1) show ?thesis
    by (auto simp: Date_now_def)
qed

lemma sweep_one_refreshed:
  assumes "\<not> shd (clock w) < expiresAt s"
    and "shd (replies w) = Response True (AuthBody data)"
  shows "sweep w [s] [] =
     ([s\<lparr>accessToken := tokens_accessToken (tokens data),
         refreshToken := orElse (tokens_refreshToken (tokens data)) (refreshToken s),
         expiresAt := shd (stl (clock w)) + 600000\<rparr>],
      w\<lparr>clock := stl (stl (clock w)), replies := stl (replies w),
        trace := trace w @ [Fetch (PostRefresh (refreshToken s))]\<rparr>)"
proof -
  have "shd (replies (w\<lparr>clock := stl (clock w)\<rparr>)) = Response True (AuthBody data)"
    using assms(2) by simp
  from refreshSession_ok[OF this, of "refreshToken s"] assms(1) show ?thesis
    by (simp add: Date_now_def withRefreshed_def)
qed

lemma refreshSessions_eq:
  assumes "\<not> isRefreshing w" and "fst (getSessions w) = Inr ss"
  shows "refreshSessions w =
     (Inr (),
      (if ss \<noteq> [] then storeSessions (reaches w ss (length ss))
                         (fst (sweep (reaches w ss 0) ss []))
       else reaches w ss (length ss))\<lparr>isRefreshing := False\<rparr>)"
proof -
  have "fst (getSessions (w\<lparr>isRefreshing := True\<rparr>)) = Inr ss"
    using assms(2) by (simp add: getSessions_value)
  then obtain w1 where g: "getSessions (w\<lparr>isRefreshing := True\<rparr>) = (Inr ss, w1)"
    by (cases "getSessions (w\<lparr>isRefreshing := True\<rparr>)") simp
  obtain rs w2 where s: "sweep w1 ss [] = (rs, w2)" by (cases "sweep w1 ss []")
  have "length rs = length ss"
    using sweep_length[of w1 ss "[]"] s by simp
  then have "(0 < length rs) = (ss \<noteq> [])" by simp
  then show ?thesis
    using assms(1) g s by (auto simp add: refreshSessions_def reaches_def)
qed

lemma reaches_0:
  "reaches w ss 0 = w\<lparr>isRefreshing := True, trace := trace w @ [SecretGet ''ldap.sessions'']\<rparr>"
  by (simp add: reaches_def getSessions_world)

lemma stored_after_sweep:
  assumes "\<not> isRefreshing w" and "fst (getSessions w) = Inr ss" and "ss \<noteq> []"
  shows "fst (getSessions (snd (refreshSessions w))) = Inr (fst (sweep (reaches w ss 0) ss []))"
  using assms(3)
  by (simp add: refreshSessions_eq[OF assms(1,2)] getSessions_value storeSessions_def
      secretStorage_store_def JSON_stringify_def)

lemma calls_after_sweep:
  assumes "\<not> isRefreshing w" and "fst (getSessions w) = Inr ss"
  shows "calls (trace (snd (refreshSessions w))) = calls (trace (reaches w ss (length ss)))"
  by (simp add: refreshSessions_eq[OF assms(1,2)] storeSessions_def
      secretStorage_store_def calls_append)

lemma reaches_nth:
  assumes "i < length ss"
  shows "fst (sweep (reaches w ss 0) ss []) ! i = hd (fst (sweep (reaches w ss i) [ss ! i] []))"
    and "reaches w ss (Suc i) = snd (sweep (reaches w ss i) [ss ! i] [])"
  using sweep_nth[OF assms, of "snd (getSessions (w\<lparr>isRefreshing := True\<rparr>))"]
  by (simp_all add: reaches_def del: sweep.simps(2))

text \<open>C4. In a sweep over the stored list \<open>ss\<close>, when the loop reaches record \<open>i\<close> and its
  \<open>expiresAt\<close> is later than the clock's reading, the record is stored as it was and
  visiting it sends no request; otherwise visiting it sends exactly one refresh request,
  with that record's refresh token. The requests of the whole sweep are those of its visits.\<close>

theorem sweep_sends_only_expired:
  assumes "\<not> isRefreshing w" and "fst (getSessions w) = Inr ss" and "i < length ss"
  shows "\<exists>stored. fst (getSessions (snd (refreshSessions w))) = Inr stored \<and>
           length stored = length ss \<and>
           calls (trace (reaches w ss 0)) = calls (trace w) \<and>
           calls (trace (snd (refreshSessions w))) = calls (trace (reaches w ss (length ss))) \<and>
           (if shd (clock (reaches w ss i)) < expiresAt (ss ! i)
            then stored ! i = ss ! i \<and>
                 calls (trace (reaches w ss (Suc i))) = calls (trace (reaches w ss i))
            else calls (trace (reaches w ss (Suc i))) =
                   calls (trace (reaches w ss i)) @ [PostRefresh (refreshToken (ss ! i))])"
proof -
  let ?stored = "fst (sweep (reaches w ss 0) ss [])"
  let ?wi = "reaches w ss i"
  from assms(3) have ne: "ss \<noteq> []" by auto
  have 1: "fst (getSessions (snd (refreshSessions w))) = Inr ?stored"
    by (rule stored_after_sweep[OF assms(1,2) ne])
  have 2: "length ?stored = length ss"
    by (simp only: sweep_length) simp
  have 3: "calls (trace (reaches w ss 0)) = calls (trace w)"
    by (simp add: reaches_0 calls_append)
  note 4 = calls_after_sweep[OF assms(1,2)]
  note n = reaches_nth[OF assms(3), of w]
  have 5: "?stored ! i = ss ! i \<and> calls (trace (reaches w ss (Suc i))) = calls (trace ?wi)"
    if "shd (clock ?wi) < expiresAt (ss ! i)"
    by (simp only: n sweep_one_unexpired[OF that]) simp
  have 6: "calls (trace (reaches w ss (Suc i))) =
             calls (trace ?wi) @ [PostRefresh (refreshToken (ss ! i))]"
    if x: "\<not> shd (clock ?wi) < expiresAt (ss ! i)"
  proof (cases "\<exists>data. shd (replies ?wi) = Response True (AuthBody data)")
    case True
    then obtain data where "shd (replies ?wi) = Response True (AuthBody data)" ..
    from sweep_one_refreshed[OF x this] show ?thesis
      by (simp only: n) (simp add: calls_append)
  next
    case False
    then have "\<forall>data. shd (replies ?wi) \<noteq> Response True (AuthBody data)" by simp
    from sweep_one_failed[OF x this] show ?thesis
      by (simp only: n) (simp add: calls_append)
  qed
  from 1 2 3 4 5 6 show ?thesis by (intro exI[of _ ?stored]) simp
qed

text \<open>At time 2000 \<open>alice\<close> (expiry 1000) is sent to refresh and \<open>bob\<close> (expiry 5000) is not.\<close>

theorem sweep_sends_only_expired_witness:
  "\<not> isRefreshing (timed 2000 (holding [alice, bob])) \<and>
   fst (getSessions (timed 2000 (holding [alice, bob]))) = Inr [alice, bob] \<and>
   (1::nat) < length [alice, bob] \<and>
   shd (clock (reaches (timed 2000 (holding [alice, bob])) [alice, bob] 1)) < expiresAt ([alice, bob] ! 1) \<and>
   calls (trace (reaches (timed 2000 (holding [alice, bob])) [alice, bob] (Suc 1))) =
     calls (trace (reaches (timed 2000 (holding [alice, bob])) [alice, bob] 1)) \<and>
   (\<exists>stored. fst (getSessions (snd (refreshSessions (timed 2000 (holding [alice, bob]))))) = Inr stored \<and>
      stored ! 1 = bob) \<and>
   calls (trace (snd (refreshSessions (timed 2000 (holding [alice, bob]))))) = [PostRefresh ''R1'']"
proof -
  let ?w = "timed 2000 (holding [alice, bob])"
  have h1: "\<not> isRefreshing ?w" by (simp add: timed_def holding_def idle_def)
  have h2: "fst (getSessions ?w) = Inr [alice, bob]"
    by (simp add: getSessions_value timed_def holding_def idle_def)
  have h3: "(1::nat) < length [alice, bob]" by simp
  have h4: "shd (clock (reaches ?w [alice, bob] 1)) < expiresAt ([alice, bob] ! 1)"
    by (simp add: reaches_def getSessions_world timed_def holding_def idle_def Date_now_def
        refreshSession_def fetch_def alice_def bob_def)
  have c: "calls (trace (snd (refreshSessions ?w))) = [PostRefresh ''R1'']"
    by (simp add: refreshSessions_def getSessions_def secretStorage_get_def 
        JSON_parse_def timed_def holding_def idle_def Date_now_def
        refreshSession_def fetch_def alice_def bob_def storeSessions_def secretStorage_store_def)
  from sweep_sends_only_expired[OF h1 h2 h3] h1 h2 h3 h4 c show ?thesis
    by auto
qed

text \<open>In the provider, a record that has expired and whose refresh fails is stored as it was,
  at its place.\<close>

lemma sweep_keeps_failed:
  assumes "\<not> isRefreshing w" and "fst (getSessions w) = Inr ss" and "i < length ss"
    and "\<not> shd (clock (reaches w ss i)) < expiresAt (ss ! i)"
    and "\<forall>data. shd (replies (reaches w ss i)) \<noteq> Response True (AuthBody data)"
  shows "\<exists>stored. fst (getSessions (snd (refreshSessions w))) = Inr stored \<and>
           length stored = length ss \<and> stored ! i = ss ! i"
proof -
  let ?stored = "fst (sweep (reaches w ss 0) ss [])"
  from assms(3) have ne: "ss \<noteq> []" by auto
  have 1: "fst (getSessions (snd (refreshSessions w))) = Inr ?stored"
    by (rule stored_after_sweep[OF assms(1,2) ne])
  have 2: "length ?stored = length ss"
    by (simp only: sweep_length) simp
  have 3: "?stored ! i = ss ! i"
    by (simp only: reaches_nth[OF assms(3), of w] sweep_one_failed[OF assms(4,5)]) simp
  from 1 2 3 show ?thesis by blast
qed

subsection \<open>The sweep of the basic provider\<close>

lemma refreshSession_basic_fail:
  "\<forall>data. shd (replies w) \<noteq> Response True (AuthBody data) \<Longrightarrow>
     \<exists>e. refreshSession_basic num w tok =
       (Inl e, w\<lparr>replies := stl (replies w), trace := trace w @ [Fetch (PostRefresh tok)]\<rparr>)"
  by (cases "shd (replies w)")
     (auto simp: refreshSession_basic_def fetch_def authData_def split: body.splits)

lemma refreshSession_basic_secrets:
  "secrets (snd (refreshSession_basic num w tok)) = secrets w"
  by (cases "shd (replies w)")
     (auto simp: refreshSession_basic_def fetch_def split: sum.splits)

text \<open>The basic provider's sweep sends a refresh request for every stored record.\<close>

lemma sweep_basic_calls:
  "calls (trace (snd (sweep_basic num w ss acc))) =
     calls (trace w) @ map (\<lambda>s. PostRefresh (b_refreshToken s)) ss"
proof (induction ss arbitrary: w acc)
  case Nil
  show ?case by simp
next
  case (Cons s rest)
  have "calls (trace (snd (refreshSession_basic num w (b_refreshToken s)))) =
      calls (trace w) @ [PostRefresh (b_refreshToken s)]"
    by (cases "shd (replies w)")
       (auto simp: refreshSession_basic_def fetch_def calls_append split: sum.splits)
  with Cons.IH show ?case
    by (cases "refreshSession_basic num w (b_refreshToken s)") (auto split: sum.splits)
qed

lemma sweep_basic_bounds:
  "length (fst (sweep_basic num w ss acc)) \<le> length acc + length ss \<and>
   secrets (snd (sweep_basic num w ss acc)) = secrets w"
proof (induction ss arbitrary: w acc)
  case Nil
  show ?case by simp
next
  case (Cons s rest)
  obtain r w1 where r: "refreshSession_basic num w (b_refreshToken s) = (r, w1)"
    by (cases "refreshSession_basic num w (b_refreshToken s)")
  then have s1: "secrets w1 = secrets w"
    using refreshSession_basic_secrets[of num w "b_refreshToken s"] by simp
  show ?case
  proof (cases r)
    case (Inl e)
    with Cons.IH[of w1 acc] r s1 show ?thesis by simp
  next
    case (Inr x)
    with Cons.IH[of w1 "acc @ [s\<lparr>b_accessToken := b_new_accessToken x,
        b_refreshToken := b_new_refreshToken x, expiresInMs := b_new_expiresInMs x\<rparr>]"] r s1
    show ?thesis by simp
  qed
qed

lemma sweep_basic_all_fail:
  "\<forall>k. replies w !! k = Rejects \<Longrightarrow>
     fst (sweep_basic num w ss acc) = acc \<and> secrets (snd (sweep_basic num w ss acc)) = secrets w"
proof (induction ss arbitrary: w)
  case Nil
  show ?case by simp
next
  case (Cons s rest)
  let ?w1 = "w\<lparr>replies := stl (replies w), trace := trace w @ [Fetch (PostRefresh (b_refreshToken s))]\<rparr>"
  from Cons.prems have "replies w !! 0 = Rejects" by blast
  then have r: "refreshSession_basic num w (b_refreshToken s) = (Inl FetchError, ?w1)"
    by (simp add: refreshSession_basic_def fetch_def)
  have "\<forall>k. replies ?w1 !! k = Rejects"
  proof
    fix k
    from Cons.prems have "replies w !! Suc k = Rejects" by blast
    then show "replies ?w1 !! k = Rejects" by simp
  qed
  from Cons.IH[OF this] r show ?case by simp
qed

text \<open>In the basic provider, when every refresh fails the sweep stores nothing: the records
  stay as they were.\<close>

lemma refreshSessions_basic_all_fail:
  assumes "\<not> isRefreshing w" and "\<forall>k. replies w !! k = Rejects"
  shows "secrets (snd (refreshSessions_basic num w)) = secrets w"
proof -
  let ?w0 = "w\<lparr>isRefreshing := True\<rparr>"
  obtain g w1 where g: "getSessions ?w0 = (g, w1)" by (cases "getSessions ?w0")
  then have w1: "w1 = ?w0\<lparr>trace := trace w @ [SecretGet ''ldap.sessions'']\<rparr>"
    using getSessions_world[of ?w0] by simp
  show ?thesis
  proof (cases g)
    case (Inl e)
    with assms(1) g w1 show ?thesis by (simp add: refreshSessions_basic_def)
  next
    case (Inr ss)
    obtain acc w2 where s: "sweep_basic num w1 ss [] = (acc, w2)"
      by (cases "sweep_basic num w1 ss []")
    have "\<forall>k. replies w1 !! k = Rejects" using assms(2) w1 by simp
    from sweep_basic_all_fail[OF this, of num ss "[]"] s
    have "acc = []" "secrets w2 = secrets w" using w1 by simp_all
    with assms(1) g Inr s show ?thesis
      by (simp add: refreshSessions_basic_def)
  qed
qed

text \<open>In the basic provider, a sweep over a single record whose refresh fails stores nothing:
  the record stays as it was.\<close>

lemma refreshSessions_basic_single_failed:
  assumes "\<not> isRefreshing v" and "fst (getSessions v) = Inr [s]"
    and "\<forall>data. shd (replies v) \<noteq> Response True (AuthBody data)"
  shows "fst (refreshSessions_basic num v) = Inr ()"
    and "secrets (snd (refreshSessions_basic num v)) = secrets v"
    and "fst (getSessions (snd (refreshSessions_basic num v))) = Inr [s]"
proof -
  let ?v1 = "v\<lparr>isRefreshing := True, trace := trace v @ [SecretGet ''ldap.sessions'']\<rparr>"
  have "fst (getSessions (v\<lparr>isRefreshing := True\<rparr>)) = Inr [s]"
    using assms(2) by (simp add: getSessions_value)
  from getSessions_eq[OF this]
  have g: "getSessions (v\<lparr>isRefreshing := True\<rparr>) = (Inr [s], ?v1)" by simp
  have "\<forall>data. shd (replies ?v1) \<noteq> Response True (AuthBody data)"
    using assms(3) by simp
  from refreshSession_basic_fail[OF this, of num "b_refreshToken s"] obtain e where
    "refreshSession_basic num ?v1 (b_refreshToken s) =
       (Inl e, ?v1\<lparr>replies := stl (replies ?v1),
                   trace := trace ?v1 @ [Fetch (PostRefresh (b_refreshToken s))]\<rparr>)"
    by blast
  with assms(1) g have r: "refreshSessions_basic num v =
      (Inr (), ?v1\<lparr>replies := stl (replies ?v1),
                   trace := trace ?v1 @ [Fetch (PostRefresh (b_refreshToken s))],
                   isRefreshing := False\<rparr>)"
    by (simp add: refreshSessions_basic_def)
  show "fst (refreshSessions_basic num v) = Inr ()" by (simp add: r)
  show "secrets (snd (refreshSessions_basic num v)) = secrets v" by (simp add: r)
  then show "fst (getSessions (snd (refreshSessions_basic num v))) = Inr [s]"
    using assms(2) by (simp add: getSessions_value)
qed

text \<open>No method of the basic provider stores more than one record, when the store held no
  more than one.\<close>

lemma createSession_basic_atMostOne:
  "atMostOne w \<Longrightarrow> atMostOne (snd (createSession_basic num w sc))"
  by (cases "shd (replies w)")
     (auto simp: atMostOne_def createSession_basic_def showInputBox_def fetch_def Let_def
        storeSessions_def secretStorage_store_def JSON_stringify_def
        split: sum.splits if_splits)

lemma splice_js_length: "length (splice_js xs i n) \<le> length xs"
  by (auto simp: splice_js_def Let_def)

lemma removeSession_basic_atMostOne:
  assumes "atMostOne w"
  shows "atMostOne (snd (removeSession_basic w sid))"
proof (cases "fst (getSessions w)")
  case (Inl e)
  then have "getSessions w = (Inl e, w\<lparr>trace := trace w @ [SecretGet ''ldap.sessions'']\<rparr>)"
    using getSessions_world[of w] by (cases "getSessions w") simp
  with assms show ?thesis by (simp add: removeSession_basic_def atMostOne_def)
next
  case (Inr ss)
  have "length ss \<le> 1"
    using assms Inr by (auto simp: atMostOne_def getSessions_value split: option.splits stored.splits)
  then have "length (splice_js ss i 1) \<le> 1" for i
    using splice_js_length[of ss i 1] by simp
  then show ?thesis
    using getSessions_eq[OF Inr]
    by (auto simp: removeSession_basic_def atMostOne_def Let_def fire_def storeSessions_def
        secretStorage_store_def JSON_stringify_def split: option.splits)
qed

lemma refreshSessions_basic_atMostOne:
  assumes "atMostOne w"
  shows "atMostOne (snd (refreshSessions_basic num w))"
proof (cases "isRefreshing w")
  case True
  with assms show ?thesis by (simp add: refreshSessions_basic_def)
next
  case False
  let ?w0 = "w\<lparr>isRefreshing := True\<rparr>"
  let ?w1 = "?w0\<lparr>trace := trace w @ [SecretGet ''ldap.sessions'']\<rparr>"
  show ?thesis
  proof (cases "fst (getSessions ?w0)")
    case (Inl e)
    then have "getSessions ?w0 = (Inl e, ?w1)"
      using getSessions_world[of ?w0] by (cases "getSessions ?w0") simp
    with False assms show ?thesis by (simp add: refreshSessions_basic_def atMostOne_def)
  next
    case (Inr ss)
    have l: "length ss \<le> 1"
      using assms Inr
      by (auto simp: atMostOne_def getSessions_value split: option.splits stored.splits)
    obtain acc w2 where s: "sweep_basic num ?w1 ss [] = (acc, w2)"
      by (cases "sweep_basic num ?w1 ss []")
    from sweep_basic_bounds[of num ?w1 ss "[]"] s l
    have "length acc \<le> 1" "secrets w2 = secrets w" by simp_all
    with False assms s getSessions_eq[OF Inr] show ?thesis
      by (auto simp: refreshSessions_basic_def atMostOne_def storeSessions_def
          secretStorage_store_def JSON_stringify_def)
  qed
qed

text \<open>On a store of two records, which no method of the basic provider writes, its sweep
  stores the refreshed records alone: the refresh of \<open>basic_alice\<close> rejects and the refresh of
  \<open>basic_bob\<close> is granted, and afterwards the store holds the refreshed \<open>basic_bob\<close>.\<close>

lemma sweep_basic_two_records:
  "fst (getSessions (snd (refreshSessions_basic exampleNumbers
          (answering [Rejects, Response True (AuthBody granted)]
             (holding [basic_alice, basic_bob]))))) =
     Inr [basic_bob\<lparr>b_accessToken := ''T9'', b_refreshToken := ''R2'',
                    expiresInMs := Num 600000\<rparr>]"
  by (simp add: refreshSessions_basic_def refreshSession_basic_def getSessions_def
      secretStorage_get_def JSON_parse_def answering_def holding_def idle_def
      fetch_def authData_def granted_def orElse_def storeSessions_def secretStorage_store_def
      JSON_stringify_def basic_bob_def exampleNumbers_def written_def)

text \<open>C1. In the provider, a sweep stores every record whose refresh fails as it was, at its
  place: the list stored after the sweep is as long as the list before and holds the same
  record there. The basic provider stores one record at most; a sweep over its one record,
  when the refresh fails, returns normally and stores nothing, so the record is read from the
  store as before.\<close>

theorem refreshSessions_keeps_failed:
  fixes w :: "session world" and v :: "'n basicSession world"
  shows
  "(\<forall>ss i. \<not> isRefreshing w \<and> fst (getSessions w) = Inr ss \<and> i < length ss \<and>
       \<not> shd (clock (reaches w ss i)) < expiresAt (ss ! i) \<and>
       (\<forall>data. shd (replies (reaches w ss i)) \<noteq> Response True (AuthBody data)) \<longrightarrow>
     (\<exists>stored. fst (getSessions (snd (refreshSessions w))) = Inr stored \<and>
        length stored = length ss \<and> stored ! i = ss ! i)) \<and>
   (\<forall>s. \<not> isRefreshing v \<and> fst (getSessions v) = Inr [s] \<and>
       (\<forall>data. shd (replies v) \<noteq> Response True (AuthBody data)) \<longrightarrow>
     fst (refreshSessions_basic num v) = Inr () \<and>
     secrets (snd (refreshSessions_basic num v)) = secrets v \<and>
     fst (getSessions (snd (refreshSessions_basic num v))) = Inr [s])"
proof (intro conjI allI impI)
  fix ss i
  assume "\<not> isRefreshing w \<and> fst (getSessions w) = Inr ss \<and> i < length ss \<and>
       \<not> shd (clock (reaches w ss i)) < expiresAt (ss ! i) \<and>
       (\<forall>data. shd (replies (reaches w ss i)) \<noteq> Response True (AuthBody data))"
  then have a: "\<not> isRefreshing w" "fst (getSessions w) = Inr ss" "i < length ss"
    "\<not> shd (clock (reaches w ss i)) < expiresAt (ss ! i)"
    "\<forall>data. shd (replies (reaches w ss i)) \<noteq> Response True (AuthBody data)"
    by simp_all
  show "\<exists>stored. fst (getSessions (snd (refreshSessions w))) = Inr stored \<and>
        length stored = length ss \<and> stored ! i = ss ! i"
    by (rule sweep_keeps_failed[OF a])
next
  fix s
  assume "\<not> isRefreshing v \<and> fst (getSessions v) = Inr [s] \<and>
       (\<forall>data. shd (replies v) \<noteq> Response True (AuthBody data))"
  then have a: "\<not> isRefreshing v" "fst (getSessions v) = Inr [s]"
    "\<forall>data. shd (replies v) \<noteq> Response True (AuthBody data)"
    by simp_all
  show "fst (refreshSessions_basic num v) = Inr ()"
    by (rule refreshSessions_basic_single_failed(1)[OF a])
  show "secrets (snd (refreshSessions_basic num v)) = secrets v"
    by (rule refreshSessions_basic_single_failed(2)[OF a])
  show "fst (getSessions (snd (refreshSessions_basic num v))) = Inr [s]"
    by (rule refreshSessions_basic_single_failed(3)[OF a])
qed

text \<open>In \<open>sweeping\<close> the refresh of \<open>alice\<close>, who has expired, rejects: she is stored as she was.
  The basic provider holds \<open>basic_alice\<close> alone and her refresh rejects: she stays.\<close>

theorem refreshSessions_keeps_failed_witness:
  "\<not> isRefreshing sweeping \<and> fst (getSessions sweeping) = Inr [alice, bob] \<and>
   (0::nat) < length [alice, bob] \<and>
   \<not> shd (clock (reaches sweeping [alice, bob] 0)) < expiresAt ([alice, bob] ! 0) \<and>
   shd (replies (reaches sweeping [alice, bob] 0)) = Rejects \<and>
   calls (trace (snd (refreshSessions sweeping))) = [PostRefresh ''R1''] \<and>
   (\<exists>stored. fst (getSessions (snd (refreshSessions sweeping))) = Inr stored \<and>
      length stored = 2 \<and> stored ! 0 = alice) \<and>
   \<not> isRefreshing (holding [basic_alice]) \<and>
   fst (getSessions (holding [basic_alice])) = Inr [basic_alice] \<and>
   shd (replies (holding [basic_alice])) = Rejects \<and>
   calls (trace (snd (refreshSessions_basic exampleNumbers (holding [basic_alice])))) =
     [PostRefresh ''R1''] \<and>
   fst (refreshSessions_basic exampleNumbers (holding [basic_alice])) = Inr () \<and>
   fst (getSessions (snd (refreshSessions_basic exampleNumbers (holding [basic_alice])))) =
     Inr [basic_alice]"
proof -
  have a: "\<not> isRefreshing sweeping" "fst (getSessions sweeping) = Inr [alice, bob]"
    "(0::nat) < length [alice, bob]"
    by (simp_all add: getSessions_value sweeping_def timed_def holding_def idle_def)
  have b: "\<not> shd (clock (reaches sweeping [alice, bob] 0)) < expiresAt ([alice, bob] ! 0)"
    "shd (replies (reaches sweeping [alice, bob] 0)) = Rejects"
    by (simp_all add: reaches_def getSessions_world sweeping_def timed_def holding_def
        idle_def alice_def)
  have c: "calls (trace (snd (refreshSessions sweeping))) = [PostRefresh ''R1'']"
    by (simp add: refreshSessions_def getSessions_def secretStorage_get_def
        JSON_parse_def sweeping_def timed_def holding_def idle_def Date_now_def
        refreshSession_def fetch_def alice_def bob_def storeSessions_def secretStorage_store_def)
  have h: "\<not> isRefreshing sweeping \<and> fst (getSessions sweeping) = Inr [alice, bob] \<and>
       (0::nat) < length [alice, bob] \<and>
       \<not> shd (clock (reaches sweeping [alice, bob] 0)) < expiresAt ([alice, bob] ! 0) \<and>
       (\<forall>data. shd (replies (reaches sweeping [alice, bob] 0)) \<noteq>
                 Response True (AuthBody data))"
    using a b by (simp only: simp_thms) simp
  from refreshSessions_keeps_failed[where w = sweeping, THEN conjunct1, rule_format, OF h]
  have A: "\<exists>stored. fst (getSessions (snd (refreshSessions sweeping))) = Inr stored \<and>
      length stored = 2 \<and> stored ! 0 = alice"
    by (simp add: numeral_2_eq_2)
  have d: "\<not> isRefreshing (holding [basic_alice])"
    "fst (getSessions (holding [basic_alice])) = Inr [basic_alice]"
    "shd (replies (holding [basic_alice])) = Rejects"
    by (simp_all add: getSessions_value holding_def idle_def)
  have e: "calls (trace (snd (refreshSessions_basic exampleNumbers (holding [basic_alice])))) =
     [PostRefresh ''R1'']"
    by (simp add: refreshSessions_basic_def refreshSession_basic_def getSessions_def
        secretStorage_get_def JSON_parse_def holding_def idle_def fetch_def basic_alice_def)
  have hb: "\<not> isRefreshing (holding [basic_alice]) \<and>
       fst (getSessions (holding [basic_alice])) = Inr [basic_alice] \<and>
       (\<forall>data. shd (replies (holding [basic_alice])) \<noteq> Response True (AuthBody data))"
    using d by (simp only: simp_thms) simp
  from refreshSessions_keeps_failed[where v = "holding [basic_alice]"
      and num = exampleNumbers, THEN conjunct2, rule_format, OF hb]
  have B: "fst (refreshSessions_basic exampleNumbers (holding [basic_alice])) = Inr ()"
    "fst (getSessions (snd (refreshSessions_basic exampleNumbers (holding [basic_alice])))) =
       Inr [basic_alice]"
    by simp_all
  from a b c A d e B show ?thesis
    by (intro conjI) assumption+
qed

section \<open>Overlapping sweeps\<close>

lemma step_Entry_busy: "isRefreshing w \<Longrightarrow> step w Entry = (w, Done (Inr ()))"
  by simp

text \<open>A step of a sweep that is in progress leaves the flag set, unless it ends the sweep, and
  then it clears the flag.\<close>

lemma step_keeps_flag:
  assumes "inProgress t" and "isRefreshing w" and "step w t = (w1, t1)"
  shows "(inProgress t1 \<and> isRefreshing w1) \<or> (\<exists>r. t1 = Done r \<and> \<not> isRefreshing w1)"
proof (cases t)
  case Loading
  with assms show ?thesis
    using getSessions_flag[of w]
    by (cases "getSessions w") (auto simp: inProgress_def split: sum.splits)
next
  case (Loop ss acc)
  with assms show ?thesis
    by (cases ss) (auto simp: inProgress_def Date_now_def split: if_splits)
next
  case (Refreshing s rest acc)
  with assms show ?thesis
    using refreshSession_flag[of w "refreshToken s"]
    by (cases "refreshSession w (refreshToken s)") (auto simp: inProgress_def split: sum.splits)
next
  case (Storing acc)
  with assms show ?thesis by (auto simp: inProgress_def)
qed (use assms in \<open>auto simp: inProgress_def\<close>)

lemma steps_keep_flag:
  assumes "inProgress t" and "isRefreshing w" and "steps n (w, t) = (w1, t1)"
  shows "(inProgress t1 \<and> isRefreshing w1) \<or> (\<exists>r. t1 = Done r \<and> \<not> isRefreshing w1)"
  using assms
proof (induction n arbitrary: w t)
  case 0
  then show ?case by simp
next
  case (Suc n)
  obtain w2 t2 where s: "step w t = (w2, t2)" by (cases "step w t")
  from step_keeps_flag[OF Suc.prems(1,2) s]
  show ?case
  proof
    assume "inProgress t2 \<and> isRefreshing w2"
    with Suc.IH[of t2 w2] Suc.prems(3) s show ?thesis by simp
  next
    assume "\<exists>r. t2 = Done r \<and> \<not> isRefreshing w2"
    then obtain r where r: "t2 = Done r" "\<not> isRefreshing w2" by blast
    have "steps n (w2, Done r) = (w2, Done r)" by (induction n) simp_all
    with s r have "steps (Suc n) (w, t) = (w2, Done r)" by simp
    with Suc.prems(3) have "w1 = w2" "t1 = Done r" by simp_all
    with r show ?thesis by blast
  qed
qed

lemma started_in_progress:
  assumes "\<not> isRefreshing w" and "steps (Suc k) (w, Entry) = (w1, t1)" and "inProgress t1"
  shows "isRefreshing w1"
proof -
  from assms(1,2) have "steps k (w\<lparr>isRefreshing := True\<rparr>, Loading) = (w1, t1)" by simp
  from steps_keep_flag[OF _ _ this] assms(3) show ?thesis
    by (auto simp: inProgress_def)
qed

text \<open>An invocation that has returned takes no part in what follows.\<close>

lemma interleave_Done:
  "interleave sch (w, a, Done r) =
     (case steps (length (filter (\<lambda>t. t = First) sch)) (w, a) of (w1, a1) \<Rightarrow> (w1, a1, Done r))"
proof (induction sch arbitrary: w a)
  case Nil
  then show ?case by simp
next
  case (Cons t sch)
  then show ?case by (cases t) (auto split: prod.splits)
qed

lemma second_is_noop:
  assumes "isRefreshing w"
  shows "interleave (Second # sch) (w, a, Entry) =
     (case steps (length (filter (\<lambda>t. t = First) sch)) (w, a) of
        (w1, a1) \<Rightarrow> (w1, a1, Done (Inr ())))"
  using assms by (simp add: interleave_Done)

lemma steps_add: "steps (m + n) c = steps n (steps m c)"
proof (induction m arbitrary: c)
  case 0
  show ?case by simp
next
  case (Suc m)
  obtain w t where c: "c = (w, t)" by (cases c)
  from Suc[of "step w t"] show ?case by (simp add: c)
qed

text \<open>The steps of the loop compute \<^verbatim>\<open>sweep\<close>.\<close>

lemma loop_runs:
  "\<exists>n. steps n (w, Loop ss acc) = (snd (sweep w ss acc), Loop [] (fst (sweep w ss acc)))"
proof (induction ss arbitrary: w acc)
  case Nil
  show ?case by (intro exI[of _ 0]) simp
next
  case (Cons s rest)
  obtain now w1 where d: "Date_now w = (now, w1)" by (cases "Date_now w")
  show ?case
  proof (cases "expiresAt s > now")
    case True
    from Cons.IH[of w1 "acc @ [s]"] obtain n where
      "steps n (w1, Loop rest (acc @ [s])) =
         (snd (sweep w1 rest (acc @ [s])), Loop [] (fst (sweep w1 rest (acc @ [s]))))" ..
    with d True show ?thesis by (intro exI[of _ "Suc n"]) simp
  next
    case False
    obtain r w2 where r: "refreshSession w1 (refreshToken s) = (r, w2)"
      by (cases "refreshSession w1 (refreshToken s)")
    let ?acc = "acc @ [case r of Inr x \<Rightarrow> withRefreshed s x | Inl e \<Rightarrow> s]"
    from Cons.IH[of w2 ?acc] obtain n where
      "steps n (w2, Loop rest ?acc) =
         (snd (sweep w2 rest ?acc), Loop [] (fst (sweep w2 rest ?acc)))" ..
    with d False r show ?thesis
      by (intro exI[of _ "Suc (Suc n)"]) (auto split: sum.splits)
  qed
qed

text \<open>Run alone, the steps of an invocation end with the result and the state of
  \<^verbatim>\<open>refreshSessions\<close>.\<close>

lemma machine_runs:
  "\<exists>n. steps n (w, Entry) = (snd (refreshSessions w), Done (fst (refreshSessions w)))"
proof (cases "isRefreshing w")
  case True
  then show ?thesis by (intro exI[of _ 1]) (simp add: refreshSessions_def)
next
  case False
  let ?w0 = "w\<lparr>isRefreshing := True\<rparr>"
  obtain g w1 where g: "getSessions ?w0 = (g, w1)" by (cases "getSessions ?w0")
  show ?thesis
  proof (cases g)
    case (Inl e)
    with False g show ?thesis
      by (intro exI[of _ 2]) (simp add: refreshSessions_def numeral_2_eq_2)
  next
    case (Inr ss)
    obtain acc w2 where s: "sweep w1 ss [] = (acc, w2)" by (cases "sweep w1 ss []")
    from loop_runs[of w1 ss "[]"] s obtain n where
      n: "steps n (w1, Loop ss []) = (w2, Loop [] acc)" by auto
    have a: "steps (2 + n) (w, Entry) = (w2, Loop [] acc)"
      using False g Inr n by (simp add: numeral_2_eq_2)
    show ?thesis
    proof (cases "length acc > 0")
      case True
      have "steps ((2 + n) + 2) (w, Entry) = steps 2 (steps (2 + n) (w, Entry))"
        by (rule steps_add)
      also have "\<dots> = steps 2 (w2, Loop [] acc)" by (simp only: a)
      also have "\<dots> = ((storeSessions w2 acc)\<lparr>isRefreshing := False\<rparr>, Done (Inr ()))"
        using True by (simp add: numeral_2_eq_2)
      finally have "steps ((2 + n) + 2) (w, Entry) =
          ((storeSessions w2 acc)\<lparr>isRefreshing := False\<rparr>, Done (Inr ()))" .
      moreover have "refreshSessions w =
          (Inr (), (storeSessions w2 acc)\<lparr>isRefreshing := False\<rparr>)"
        using False g Inr s True by (simp add: refreshSessions_def)
      ultimately show ?thesis by (intro exI[of _ "(2 + n) + 2"]) (simp only: fst_conv snd_conv)
    next
      case F: False
      have "steps ((2 + n) + 1) (w, Entry) = steps 1 (steps (2 + n) (w, Entry))"
        by (rule steps_add)
      also have "\<dots> = steps 1 (w2, Loop [] acc)" by (simp only: a)
      also have "\<dots> = (w2\<lparr>isRefreshing := False\<rparr>, Done (Inr ()))"
        using F by simp
      finally have "steps ((2 + n) + 1) (w, Entry) =
          (w2\<lparr>isRefreshing := False\<rparr>, Done (Inr ()))" .
      moreover have "refreshSessions w = (Inr (), w2\<lparr>isRefreshing := False\<rparr>)"
        using False g Inr s F by (simp add: refreshSessions_def)
      ultimately show ?thesis by (intro exI[of _ "(2 + n) + 1"]) (simp only: fst_conv snd_conv)
    qed
  qed
qed

lemma refreshSessions_clears_flag: "\<not> isRefreshing w \<Longrightarrow> \<not> isRefreshing (snd (refreshSessions w))"
  by (auto simp: refreshSessions_def split: prod.splits sum.splits)

lemma sweep_trace: "\<exists>es. trace (snd (sweep w ss acc)) = trace w @ es"
proof (induction ss arbitrary: w acc)
  case Nil
  show ?case by simp
next
  case (Cons s rest)
  obtain now w1 where d: "Date_now w = (now, w1)" by (cases "Date_now w")
  then have t1: "trace w1 = trace w" by (auto simp: Date_now_def)
  show ?case
  proof (cases "expiresAt s > now")
    case True
    with Cons.IH[of w1 "acc @ [s]"] d t1 show ?thesis by simp
  next
    case False
    obtain r w2 where r: "refreshSession w1 (refreshToken s) = (r, w2)"
      by (cases "refreshSession w1 (refreshToken s)")
    then have t2: "trace w2 = trace w @ [Fetch (PostRefresh (refreshToken s))]"
      using refreshSession_trace[of w1 "refreshToken s"] t1 by simp
    from Cons.IH[of w2] obtain es where
      "trace (snd (sweep w2 rest (acc @ [case r of Inr x \<Rightarrow> withRefreshed s x | Inl e \<Rightarrow> s])))
         = trace w2 @ es" by blast
    with d False r t2 show ?thesis by (auto split: sum.splits)
  qed
qed

lemma refreshSessions_loads:
  assumes "\<not> isRefreshing w"
  shows "\<exists>es. trace (snd (refreshSessions w)) = trace w @ SecretGet ''ldap.sessions'' # es"
proof -
  let ?w0 = "w\<lparr>isRefreshing := True\<rparr>"
  let ?w1 = "?w0\<lparr>trace := trace w @ [SecretGet ''ldap.sessions'']\<rparr>"
  have w1: "snd (getSessions ?w0) = ?w1" by (simp add: getSessions_world)
  show ?thesis
  proof (cases "fst (getSessions ?w0)")
    case (Inl e)
    with w1 assms show ?thesis
      by (cases "getSessions ?w0") (simp add: refreshSessions_def)
  next
    case (Inr ss)
    obtain acc w2 where s: "sweep ?w1 ss [] = (acc, w2)" by (cases "sweep ?w1 ss []")
    from sweep_trace[of ?w1 ss "[]"] s obtain es where
      es: "trace w2 = trace w @ SecretGet ''ldap.sessions'' # es" by auto
    from Inr w1 have "getSessions ?w0 = (Inr ss, ?w1)" by (cases "getSessions ?w0") simp
    with assms s es show ?thesis
      by (simp add: refreshSessions_def storeSessions_def secretStorage_store_def)
  qed
qed

text \<open>C2. An invocation of \<^verbatim>\<open>refreshSessions\<close> that finds the flag set returns at once and leaves
  the state as it is: the store is not read and nothing is sent. An invocation that finds
  the flag clear runs the sweep (its steps end with the result of \<^verbatim>\<open>refreshSessions\<close>) and
  leaves the flag clear however it ends, also when it fails, so that the next invocation
  reads the store again. While the sweep is in progress (after any number of its steps) the
  flag is set; a second invocation that starts then returns at once, and whatever the order
  of the steps after that, the state is the one the first invocation reaches by its own
  steps: the two invocations send one set of refresh requests.\<close>

theorem refreshSessions_reentrancy:
  "(isRefreshing w \<longrightarrow> refreshSessions w = (Inr (), w) \<and> step w Entry = (w, Done (Inr ()))) \<and>
   (\<not> isRefreshing w \<longrightarrow>
      (\<exists>n. steps n (w, Entry) = (snd (refreshSessions w), Done (fst (refreshSessions w)))) \<and>
      \<not> isRefreshing (snd (refreshSessions w)) \<and>
      (\<exists>es. trace (snd (refreshSessions (snd (refreshSessions w)))) =
              trace (snd (refreshSessions w)) @ SecretGet ''ldap.sessions'' # es) \<and>
      (\<forall>k w1 a1 sch. steps (Suc k) (w, Entry) = (w1, a1) \<and> inProgress a1 \<longrightarrow>
          isRefreshing w1 \<and> refreshSessions w1 = (Inr (), w1) \<and>
          interleave (Second # sch) (w1, a1, Entry) =
            (case steps (length (filter (\<lambda>t. t = First) sch)) (w1, a1) of
               (w2, a2) \<Rightarrow> (w2, a2, Done (Inr ())))))"
proof (intro conjI impI allI)
  assume "isRefreshing w"
  then show "refreshSessions w = (Inr (), w)" and "step w Entry = (w, Done (Inr ()))"
    by (simp_all add: refreshSessions_def)
next
  assume f: "\<not> isRefreshing w"
  show "\<exists>n. steps n (w, Entry) = (snd (refreshSessions w), Done (fst (refreshSessions w)))"
    by (rule machine_runs)
  from f show c: "\<not> isRefreshing (snd (refreshSessions w))"
    by (rule refreshSessions_clears_flag)
  from c show "\<exists>es. trace (snd (refreshSessions (snd (refreshSessions w)))) =
              trace (snd (refreshSessions w)) @ SecretGet ''ldap.sessions'' # es"
    by (rule refreshSessions_loads)
  fix k w1 a1 sch
  assume "steps (Suc k) (w, Entry) = (w1, a1) \<and> inProgress a1"
  with f have b: "isRefreshing w1" by (auto intro: started_in_progress)
  then show "isRefreshing w1" .
  from b show "refreshSessions w1 = (Inr (), w1)" by (simp add: refreshSessions_def)
  from b show "interleave (Second # sch) (w1, a1, Entry) =
            (case steps (length (filter (\<lambda>t. t = First) sch)) (w1, a1) of
               (w2, a2) \<Rightarrow> (w2, a2, Done (Inr ())))"
    by (rule second_is_noop)
qed

text \<open>A sweep that waits for the refresh of \<open>alice\<close> when the second invocation starts; and a
  sweep that fails on an unparsable store.\<close>

theorem refreshSessions_reentrancy_witness:
  "\<not> isRefreshing sweeping \<and>
   steps (Suc 2) (sweeping, Entry) = (midSweep, Refreshing alice [bob] []) \<and>
   inProgress (Refreshing alice [bob] []) \<and>
   isRefreshing midSweep \<and>
   refreshSessions midSweep = (Inr (), midSweep) \<and>
   interleave [Second, First, Second, First, First, First, Second]
       (midSweep, Refreshing alice [bob] [], Entry) =
     (snd (refreshSessions sweeping), Done (Inr ()), Done (Inr ())) \<and>
   calls (trace (snd (refreshSessions sweeping))) = [PostRefresh ''R1''] \<and>
   \<not> isRefreshing (snd (refreshSessions sweeping)) \<and>
   \<not> isRefreshing corruptStore \<and>
   fst (refreshSessions corruptStore) = Inl SyntaxError \<and>
   \<not> isRefreshing (snd (refreshSessions corruptStore))"
proof -
  have f: "\<not> isRefreshing sweeping" "\<not> isRefreshing corruptStore"
    by (simp_all add: sweeping_def timed_def holding_def corruptStore_def idle_def)
  have s: "steps (Suc 2) (sweeping, Entry) = (midSweep, Refreshing alice [bob] [])"
    by (simp add: numeral_2_eq_2 sweeping_def midSweep_def timed_def holding_def idle_def
        getSessions_def secretStorage_get_def  JSON_parse_def Date_now_def alice_def)
  have p: "inProgress (Refreshing alice [bob] [])" by (simp add: inProgress_def)
  have r: "snd (refreshSessions sweeping) =
      midSweep\<lparr>isRefreshing := False, replies := stl (replies midSweep),
        secrets := [''ldap.sessions'' \<mapsto> Json [alice, bob]],
        trace := [SecretGet ''ldap.sessions'', Fetch (PostRefresh ''R1''),
                  SecretStore ''ldap.sessions'' (Json [alice, bob])]\<rparr>"
    by (simp add: refreshSessions_def sweeping_def midSweep_def timed_def holding_def idle_def
        getSessions_def secretStorage_get_def  JSON_parse_def Date_now_def
        refreshSession_def fetch_def storeSessions_def secretStorage_store_def JSON_stringify_def
        alice_def bob_def)
  have e: "steps 4 (midSweep, Refreshing alice [bob] []) = (snd (refreshSessions sweeping), Done (Inr ()))"
    by (simp add: r eval_nat_numeral)
       (simp add: sweeping_def midSweep_def timed_def holding_def idle_def
        Date_now_def refreshSession_def fetch_def storeSessions_def secretStorage_store_def
        JSON_stringify_def alice_def bob_def)
  have x: "fst (refreshSessions corruptStore) = Inl SyntaxError"
    by (simp add: refreshSessions_def corruptStore_def idle_def getSessions_def
        secretStorage_get_def  JSON_parse_def)
  from refreshSessions_reentrancy[of sweeping] f(1) s p
  have I: "isRefreshing midSweep" "refreshSessions midSweep = (Inr (), midSweep)"
        "interleave (Second # [First, Second, First, First, First, Second])
            (midSweep, Refreshing alice [bob] [], Entry) =
          (case steps (length (filter (\<lambda>t. t = First) [First, Second, First, First, First, Second]))
                  (midSweep, Refreshing alice [bob] []) of
             (w2, a2) \<Rightarrow> (w2, a2, Done (Inr ())))"
    by blast+
  have L: "length (filter (\<lambda>t. t = First) [First, Second, First, First, First, Second]) = 4"
    by simp
  have J: "interleave [Second, First, Second, First, First, First, Second]
       (midSweep, Refreshing alice [bob] [], Entry) =
     (snd (refreshSessions sweeping), Done (Inr ()), Done (Inr ()))"
    unfolding I(3) L e by simp
  have c1: "calls (trace (snd (refreshSessions sweeping))) = [PostRefresh ''R1'']"
    by (simp add: r)
  have c2: "\<not> isRefreshing (snd (refreshSessions sweeping))"
    using refreshSessions_reentrancy[of sweeping] f(1) by blast
  have c3: "\<not> isRefreshing (snd (refreshSessions corruptStore))"
    using refreshSessions_reentrancy[of corruptStore] f(2) by blast
  from f(1) s p I(1,2) J c1 c2 f(2) x c3 show ?thesis
    by (intro conjI) assumption+
qed

section \<open>Logging in\<close>

lemma loginError_None: "loginError r = None \<longleftrightarrow> (\<exists>data. r = Response True (AuthBody data))"
  by (auto simp: loginError_def authData_def split: reply.splits body.splits)

lemma loop_prompts:
  assumes "a < 3" and "\<not> falsy (shd (inputs w))" and "\<not> falsy (shd (stl (inputs w)))"
  shows "createSessionLoop w a =
     (case loginTry (prompted w a) a (orElse (shd (inputs w)) '''') (orElse (shd (stl (inputs w))) '''') of
        (Inr (Return s), w3) \<Rightarrow> (Inr s, w3)
      | (Inr Continue, w3) \<Rightarrow> createSessionLoop w3 (Suc a)
      | (Inl e, w3) \<Rightarrow>
          if a < 2 then createSessionLoop (showErrorMessage w3 ''Connection failed. Please try again.'') (Suc a)
          else (Inl e, w3))"
  using assms
  by (subst createSessionLoop.simps)
     (simp add: maxAttempts_def showInputBox_def prompted_def
        split: prod.splits sum.splits flow.splits)

lemma loginTry_granted:
  "shd (replies w) = Response True (AuthBody data) \<Longrightarrow>
   loginTry w a u p =
     (let s = \<lparr>session_id = u, accessToken = tokens_accessToken (tokens data),
               account = \<lparr>account_id = u, label = orElse (Some (displayName (user data))) u\<rparr>,
               scopes = [],
               refreshToken = orElse (tokens_refreshToken (tokens data)) '''',
               expiresAt = shd (clock w) + 600000, loginNeeded = False\<rparr>
      in (Inr (Return s),
          storeSessions (w\<lparr>replies := stl (replies w), trace := trace w @ [Fetch (PostLogin u p)],
                          clock := stl (clock w)\<rparr>) [s]))"
  by (simp add: loginTry_def fetch_def authData_def Date_now_def ACCESS_TOKEN_TTL_MINUTES_def Let_def)

lemma loginTry_failed:
  assumes "loginError (shd (replies w)) = Some e"
  shows "a < 2 \<Longrightarrow> \<exists>msg.
            loginTry w a u p = (Inr Continue, w\<lparr>replies := stl (replies w),
                  trace := trace w @ [Fetch (PostLogin u p), ErrorMessage msg]\<rparr>) \<or>
            loginTry w a u p = (Inl e, w\<lparr>replies := stl (replies w),
                  trace := trace w @ [Fetch (PostLogin u p)]\<rparr>)"
    and "\<not> a < 2 \<Longrightarrow>
            loginTry w a u p = (Inl e, w\<lparr>replies := stl (replies w),
                  trace := trace w @ [Fetch (PostLogin u p)]\<rparr>)"
  using assms
  by (cases "shd (replies w)";
      auto simp: loginError_def loginTry_def fetch_def maxAttempts_def showErrorMessage_def Let_def
        split: if_splits sum.splits)+

lemma loop_retry:
  assumes "a < 2" and "\<not> falsy (shd (inputs w))" and "\<not> falsy (shd (stl (inputs w)))"
    and "loginError (shd (replies w)) = Some e"
  shows "\<exists>msg. createSessionLoop w a = createSessionLoop (retried w a msg) (Suc a)"
proof -
  let ?u = "orElse (shd (inputs w)) ''''" and ?p = "orElse (shd (stl (inputs w))) ''''"
  have e: "loginError (shd (replies (prompted w a))) = Some e"
    using assms(4) by (simp add: prompted_def)
  from assms(1) have a3: "a < 3" by simp
  note l = loop_prompts[OF a3 assms(2,3)]
  from loginTry_failed(1)[OF e assms(1), of ?u ?p] obtain msg where
    "loginTry (prompted w a) a ?u ?p = (Inr Continue, retried w a msg) \<or>
     loginTry (prompted w a) a ?u ?p = (Inl e, gaveUp w a)"
    by (auto simp: retried_def gaveUp_def prompted_def)
  then show ?thesis
  proof
    assume "loginTry (prompted w a) a ?u ?p = (Inr Continue, retried w a msg)"
    then show ?thesis by (auto simp: l)
  next
    assume "loginTry (prompted w a) a ?u ?p = (Inl e, gaveUp w a)"
    moreover have "showErrorMessage (gaveUp w a) ''Connection failed. Please try again.'' =
        retried w a ''Connection failed. Please try again.''"
      by (simp add: showErrorMessage_def gaveUp_def retried_def)
    ultimately show ?thesis using assms(1) by (auto simp: l)
  qed
qed

lemma loop_last_failure:
  assumes "\<not> falsy (shd (inputs w))" and "\<not> falsy (shd (stl (inputs w)))"
    and "loginError (shd (replies w)) = Some e"
  shows "createSessionLoop w 2 = (Inl e, gaveUp w 2)"
proof -
  have e: "loginError (shd (replies (prompted w 2))) = Some e"
    using assms(3) by (simp add: prompted_def)
  have "\<not> (2::nat) < 2" by simp
  from loginTry_failed(2)[OF e this] show ?thesis
    by (simp add: loop_prompts[OF _ assms(1,2)] gaveUp_def prompted_def)
qed

lemma loop_granted:
  assumes "a < 3" and "\<not> falsy (shd (inputs w))" and "\<not> falsy (shd (stl (inputs w)))"
    and "shd (replies w) = Response True (AuthBody data)"
  shows "createSessionLoop w a =
     (let u = orElse (shd (inputs w)) '''';
          s = \<lparr>session_id = u, accessToken = tokens_accessToken (tokens data),
               account = \<lparr>account_id = u, label = orElse (Some (displayName (user data))) u\<rparr>,
               scopes = [],
               refreshToken = orElse (tokens_refreshToken (tokens data)) '''',
               expiresAt = shd (clock w) + 600000, loginNeeded = False\<rparr>
      in (Inr s, storeSessions ((gaveUp w a)\<lparr>clock := stl (clock w)\<rparr>) [s]))"
proof -
  have "shd (replies (prompted w a)) = Response True (AuthBody data)"
    using assms(4) by (simp add: prompted_def)
  from loginTry_granted[OF this] show ?thesis
    by (simp add: loop_prompts[OF assms(1,2,3)] Let_def gaveUp_def prompted_def)
qed

lemma retried_fields:
  "inputs (retried w a msg) = stl (stl (inputs w))"
  "replies (retried w a msg) = stl (replies w)"
  "clock (retried w a msg) = clock w"
  "secrets (retried w a msg) = secrets w"
  "calls (trace (retried w a msg)) =
     calls (trace w) @ [PostLogin (orElse (shd (inputs w)) '''') (orElse (shd (stl (inputs w))) '''')]"
  "events (trace (retried w a msg)) = events (trace w)"
  by (simp_all add: retried_def prompted_def calls_append events_append)

lemma gaveUp_fields:
  "calls (trace (gaveUp w a)) =
     calls (trace w) @ [PostLogin (orElse (shd (inputs w)) '''') (orElse (shd (stl (inputs w))) '''')]"
  "events (trace (gaveUp w a)) = events (trace w)"
  "clock (gaveUp w a) = clock w"
  by (simp_all add: gaveUp_def prompted_def calls_append events_append)

lemma loop_exhausted: "\<not> a < 3 \<Longrightarrow> createSessionLoop w a = (Inl (Error ''Maximum login attempts exceeded''), w)"
  by (subst createSessionLoop.simps) (simp add: maxAttempts_def)

lemma loop_no_username:
  "a < 3 \<Longrightarrow> falsy (shd (inputs w)) \<Longrightarrow>
     calls (trace (snd (createSessionLoop w a))) = calls (trace w) \<and>
     fst (createSessionLoop w a) = Inl (Error ''Username required'')"
  by (subst (1 2) createSessionLoop.simps)
     (simp add: maxAttempts_def showInputBox_def calls_append)

lemma loop_no_password:
  "a < 3 \<Longrightarrow> \<not> falsy (shd (inputs w)) \<Longrightarrow> falsy (shd (stl (inputs w))) \<Longrightarrow>
     calls (trace (snd (createSessionLoop w a))) = calls (trace w) \<and>
     fst (createSessionLoop w a) = Inl (Error ''Password required'')"
  by (subst (1 2) createSessionLoop.simps)
     (simp add: maxAttempts_def showInputBox_def calls_append)

lemma loginTry_calls: "calls (trace (snd (loginTry w a u p))) = calls (trace w) @ [PostLogin u p]"
  by (cases "shd (replies w)")
     (auto simp: loginTry_def fetch_def Date_now_def storeSessions_def secretStorage_store_def
        showErrorMessage_def calls_append Let_def split: sum.splits prod.splits)

lemma loop_calls_le:
  "length (calls (trace (snd (createSessionLoop w a)))) \<le> length (calls (trace w)) + (3 - a)"
proof (induction "3 - a" arbitrary: w a)
  case 0
  then have "\<not> a < 3" by simp
  then show ?case by (simp add: loop_exhausted)
next
  case (Suc n)
  then have a3: "a < 3" by simp
  show ?case
  proof (cases "falsy (shd (inputs w))")
    case True
    with a3 show ?thesis by (simp add: loop_no_username)
  next
    case u: False
    show ?thesis
    proof (cases "falsy (shd (stl (inputs w)))")
      case True
      with a3 u show ?thesis by (simp add: loop_no_password)
    next
      case p: False
      let ?u = "orElse (shd (inputs w)) ''''" and ?p = "orElse (shd (stl (inputs w))) ''''"
      obtain r w3 where r: "loginTry (prompted w a) a ?u ?p = (r, w3)"
        by (cases "loginTry (prompted w a) a ?u ?p")
      have c: "length (calls (trace w3)) = length (calls (trace w)) + 1"
        using loginTry_calls[of "prompted w a" a ?u ?p] r
        by (simp add: prompted_def calls_append)
      have IH: "length (calls (trace (snd (createSessionLoop v (Suc a)))))
                  \<le> length (calls (trace v)) + (3 - Suc a)" if "a < 2" for v
        using Suc.hyps(1)[of "Suc a" v] Suc.hyps(2) that by simp
      note l = loop_prompts[OF a3 u p, unfolded r]
      show ?thesis
      proof (cases r)
        case (Inl e)
        show ?thesis
        proof (cases "a < 2")
          case True
          from IH[OF True, of "showErrorMessage w3 ''Connection failed. Please try again.''"] c
          show ?thesis using True Inl
            by (simp add: l showErrorMessage_def calls_append)
        next
          case False
          with c a3 Inl show ?thesis by (simp add: l)
        qed
      next
        case (Inr f)
        show ?thesis
        proof (cases f)
          case (Return s)
          with c a3 Inr show ?thesis by (simp add: l)
        next
          case Continue
          have "a < 2"
            using r Inr Continue
            by (auto simp: loginTry_def fetch_def maxAttempts_def Let_def
                split: reply.splits if_splits sum.splits prod.splits)
          from IH[OF this, of w3] c show ?thesis using Inr Continue \<open>a < 2\<close>
            by (simp add: l)
        qed
      qed
    qed
  qed
qed

text \<open>C5, as amended. When the user answers every input box: after two failed attempts
  (a refused login, a rejected request or a malformed answer) and a granted third one,
  \<^verbatim>\<open>createSession\<close> returns the session of the third attempt and has sent exactly three
  login requests; after three failed attempts it fails with the error of the third
  attempt, having sent exactly three login requests. In every case it sends at most three.\<close>

theorem createSession_three_attempts:
  assumes "\<forall>i<6. \<not> falsy (inputs w !! i)"
  shows "(\<forall>e0 e1 data.
            loginError (replies w !! 0) = Some e0 \<and> loginError (replies w !! 1) = Some e1 \<and>
            replies w !! 2 = Response True (AuthBody data) \<longrightarrow>
              (\<exists>s. fst (createSession w sc) = Inr s \<and>
                   session_id s = orElse (inputs w !! 4) '''' \<and>
                   accessToken s = tokens_accessToken (tokens data)) \<and>
              calls (trace (snd (createSession w sc))) =
                calls (trace w) @
                  [PostLogin (orElse (inputs w !! 0) '''') (orElse (inputs w !! 1) ''''),
                   PostLogin (orElse (inputs w !! 2) '''') (orElse (inputs w !! 3) ''''),
                   PostLogin (orElse (inputs w !! 4) '''') (orElse (inputs w !! 5) '''')]) \<and>
         (\<forall>e0 e1 e2.
            loginError (replies w !! 0) = Some e0 \<and> loginError (replies w !! 1) = Some e1 \<and>
            loginError (replies w !! 2) = Some e2 \<longrightarrow>
              fst (createSession w sc) = Inl e2 \<and>
              calls (trace (snd (createSession w sc))) =
                calls (trace w) @
                  [PostLogin (orElse (inputs w !! 0) '''') (orElse (inputs w !! 1) ''''),
                   PostLogin (orElse (inputs w !! 2) '''') (orElse (inputs w !! 3) ''''),
                   PostLogin (orElse (inputs w !! 4) '''') (orElse (inputs w !! 5) '''')]) \<and>
         length (calls (trace (snd (createSession w sc)))) \<le> length (calls (trace w)) + 3"
proof -
  have i: "\<not> falsy (shd (inputs w))" "\<not> falsy (shd (stl (inputs w)))"
    "\<not> falsy (shd (stl (stl (inputs w))))" "\<not> falsy (shd (stl (stl (stl (inputs w)))))"
    "\<not> falsy (shd (stl (stl (stl (stl (inputs w))))))"
    "\<not> falsy (shd (stl (stl (stl (stl (stl (inputs w)))))))"
    using assms[rule_format, of 0] assms[rule_format, of 1] assms[rule_format, of 2]
      assms[rule_format, of 3] assms[rule_format, of 4] assms[rule_format, of 5]
    by (simp_all add: snth_1 snth_2 snth_3 snth_4 snth_5)
  have two: "\<exists>m0 m1. createSession w sc = createSessionLoop (retried (retried w 0 m0) 1 m1) 2"
    if "loginError (replies w !! 0) = Some e0" "loginError (replies w !! 1) = Some e1" for e0 e1
  proof -
    from that(1) have "loginError (shd (replies w)) = Some e0" by simp
    from loop_retry[OF _ i(1,2) this, of 0] obtain m0 where
      m0: "createSessionLoop w 0 = createSessionLoop (retried w 0 m0) (Suc 0)" by auto
    have "loginError (shd (replies (retried w 0 m0))) = Some e1"
      using that(2) by (simp add: retried_fields snth_1)
    from loop_retry[OF _ _ _ this, of "Suc 0"] i(3,4) obtain m1 where
      "createSessionLoop (retried w 0 m0) (Suc 0) =
         createSessionLoop (retried (retried w 0 m0) (Suc 0) m1) (Suc (Suc 0))"
      by (auto simp: retried_fields)
    with m0 show ?thesis
      by (auto simp: createSession_def numeral_2_eq_2)
  qed
  have ins: "\<not> falsy (shd (inputs (retried (retried w 0 m0) 1 m1)))"
    "\<not> falsy (shd (stl (inputs (retried (retried w 0 m0) 1 m1))))" for m0 m1
    using i(5,6) by (simp_all add: retried_fields)
  have cs: "calls (trace (gaveUp (retried (retried w 0 m0) 1 m1) 2)) =
      calls (trace w) @
        [PostLogin (orElse (inputs w !! 0) '''') (orElse (inputs w !! 1) ''''),
         PostLogin (orElse (inputs w !! 2) '''') (orElse (inputs w !! 3) ''''),
         PostLogin (orElse (inputs w !! 4) '''') (orElse (inputs w !! 5) '''')]" for m0 m1
    by (simp add: gaveUp_fields retried_fields snth_1 snth_2 snth_3 snth_4 snth_5)
  have A: "(\<exists>s. fst (createSession w sc) = Inr s \<and>
                   session_id s = orElse (inputs w !! 4) '''' \<and>
                   accessToken s = tokens_accessToken (tokens data)) \<and>
              calls (trace (snd (createSession w sc))) =
                calls (trace w) @
                  [PostLogin (orElse (inputs w !! 0) '''') (orElse (inputs w !! 1) ''''),
                   PostLogin (orElse (inputs w !! 2) '''') (orElse (inputs w !! 3) ''''),
                   PostLogin (orElse (inputs w !! 4) '''') (orElse (inputs w !! 5) '''')]"
    if "loginError (replies w !! 0) = Some e0" "loginError (replies w !! 1) = Some e1"
       "replies w !! 2 = Response True (AuthBody data)" for e0 e1 data
  proof -
    from two[OF that(1,2)] obtain m0 m1 where
      c: "createSession w sc = createSessionLoop (retried (retried w 0 m0) 1 m1) 2" by blast
    have "shd (replies (retried (retried w 0 m0) 1 m1)) = Response True (AuthBody data)"
      using that(3) by (simp add: retried_fields snth_2)
    from loop_granted[OF _ ins this, of 2] cs[of m0 m1] show ?thesis
      by (simp add: c Let_def retried_fields snth_4 storeSessions_def secretStorage_store_def
          calls_append)
  qed
  have B: "fst (createSession w sc) = Inl e2 \<and>
              calls (trace (snd (createSession w sc))) =
                calls (trace w) @
                  [PostLogin (orElse (inputs w !! 0) '''') (orElse (inputs w !! 1) ''''),
                   PostLogin (orElse (inputs w !! 2) '''') (orElse (inputs w !! 3) ''''),
                   PostLogin (orElse (inputs w !! 4) '''') (orElse (inputs w !! 5) '''')]"
    if "loginError (replies w !! 0) = Some e0" "loginError (replies w !! 1) = Some e1"
       "loginError (replies w !! 2) = Some e2" for e0 e1 e2
  proof -
    from two[OF that(1,2)] obtain m0 m1 where
      c: "createSession w sc = createSessionLoop (retried (retried w 0 m0) 1 m1) 2" by blast
    have "loginError (shd (replies (retried (retried w 0 m0) 1 m1))) = Some e2"
      using that(3) by (simp add: retried_fields snth_2)
    from loop_last_failure[OF ins this] cs[of m0 m1] show ?thesis
      by (simp add: c)
  qed
  have C: "length (calls (trace (snd (createSession w sc)))) \<le> length (calls (trace w)) + 3"
    using loop_calls_le[of w 0] by (simp add: createSession_def)
  from A B C show ?thesis by blast
qed

text \<open>C5 as stated fails: after three refused logins the error is the third attempt's
  \<^verbatim>\<open>Invalid credentials\<close>, not \<^verbatim>\<open>Maximum login attempts exceeded\<close>.\<close>

theorem createSession_three_attempts_counterexample:
  "fst (createSession lockedOut []) = Inl (Error ''Invalid credentials'') \<and>
   fst (createSession lockedOut []) \<noteq> Inl (Error ''Maximum login attempts exceeded'')"
  by (simp add: createSession_def createSessionLoop.simps lockedOut_def answering_def typing_def
      idle_def refused_def maxAttempts_def showInputBox_def falsy_def orElse_def loginTry_def
      fetch_def errorDetail_def showErrorMessage_def)

text \<open>Three refused logins; and a refused login, a rejected request, then a granted login.\<close>

theorem createSession_three_attempts_witness:
  "\<not> falsy (inputs lockedOut !! 0) \<and> \<not> falsy (inputs lockedOut !! 1) \<and>
   \<not> falsy (inputs lockedOut !! 2) \<and> \<not> falsy (inputs lockedOut !! 3) \<and>
   \<not> falsy (inputs lockedOut !! 4) \<and> \<not> falsy (inputs lockedOut !! 5) \<and>
   loginError (replies lockedOut !! 0) = Some (Error ''Invalid credentials'') \<and>
   loginError (replies lockedOut !! 1) = Some (Error ''Invalid credentials'') \<and>
   loginError (replies lockedOut !! 2) = Some (Error ''Invalid credentials'') \<and>
   fst (createSession lockedOut []) = Inl (Error ''Invalid credentials'') \<and>
   calls (trace (snd (createSession lockedOut []))) =
     [PostLogin ''alice'' ''pw1'', PostLogin ''alice'' ''pw2'', PostLogin ''alice'' ''pw3''] \<and>
   loginError (replies thirdTime !! 0) = Some (Error ''Invalid credentials'') \<and>
   loginError (replies thirdTime !! 1) = Some FetchError \<and>
   replies thirdTime !! 2 = Response True (AuthBody granted) \<and>
   (\<exists>s. fst (createSession thirdTime []) = Inr s \<and> session_id s = ''alice'' \<and>
        accessToken s = ''T9'') \<and>
   calls (trace (snd (createSession thirdTime []))) =
     [PostLogin ''alice'' ''pw1'', PostLogin ''alice'' ''pw2'', PostLogin ''alice'' ''pw3'']"
proof -
  have i: "\<forall>i<6. \<not> falsy (inputs lockedOut !! i)" "\<forall>i<6. \<not> falsy (inputs thirdTime !! i)"
    by (simp_all add: lockedOut_def thirdTime_def answering_def typing_def idle_def falsy_def
        eval_nat_numeral All_less_Suc)
  have r: "loginError (replies lockedOut !! 0) = Some (Error ''Invalid credentials'')"
    "loginError (replies lockedOut !! 1) = Some (Error ''Invalid credentials'')"
    "loginError (replies lockedOut !! 2) = Some (Error ''Invalid credentials'')"
    "loginError (replies thirdTime !! 0) = Some (Error ''Invalid credentials'')"
    "loginError (replies thirdTime !! 1) = Some FetchError"
    "replies thirdTime !! 2 = Response True (AuthBody granted)"
    by (simp_all add: lockedOut_def thirdTime_def answering_def typing_def idle_def
        loginError_def refused_def errorDetail_def orElse_def eval_nat_numeral)
  have v: "inputs lockedOut !! 0 = Some ''alice''" "inputs lockedOut !! 1 = Some ''pw1''"
    "inputs lockedOut !! 2 = Some ''alice''" "inputs lockedOut !! 3 = Some ''pw2''"
    "inputs lockedOut !! 4 = Some ''alice''" "inputs lockedOut !! 5 = Some ''pw3''"
    "inputs thirdTime !! 0 = Some ''alice''" "inputs thirdTime !! 1 = Some ''pw1''"
    "inputs thirdTime !! 2 = Some ''alice''" "inputs thirdTime !! 3 = Some ''pw2''"
    "inputs thirdTime !! 4 = Some ''alice''" "inputs thirdTime !! 5 = Some ''pw3''"
    "trace lockedOut = []" "trace thirdTime = []"
    by (simp_all add: lockedOut_def thirdTime_def answering_def typing_def idle_def
        eval_nat_numeral)
  from createSession_three_attempts[OF i(1), of "[]"] createSession_three_attempts[OF i(2), of "[]"]
    r v show ?thesis
    by (simp add: orElse_def falsy_def granted_def)
qed

text \<open>What a login loop that returns a session has done.\<close>

lemma loop_success:
  "createSessionLoop w a = (Inr s, w') \<Longrightarrow>
     \<exists>k data u. a + k < 3 \<and> replies w !! k = Response True (AuthBody data) \<and>
        inputs w !! (2 * k) = Some u \<and> u \<noteq> [] \<and>
        s = \<lparr>session_id = u, accessToken = tokens_accessToken (tokens data),
             account = \<lparr>account_id = u, label = orElse (Some (displayName (user data))) u\<rparr>,
             scopes = [],
             refreshToken = orElse (tokens_refreshToken (tokens data)) '''',
             expiresAt = shd (clock w) + 600000, loginNeeded = False\<rparr> \<and>
        fst (getSessions w') = Inr [s] \<and> events (trace w') = events (trace w)"
proof (induction "3 - a" arbitrary: w a)
  case 0
  then have "\<not> a < 3" by simp
  with 0 show ?case by (simp add: loop_exhausted)
next
  case (Suc n)
  then have a3: "a < 3" by simp
  note run = Suc.prems
  have u: "\<not> falsy (shd (inputs w))"
    using loop_no_username[OF a3, of w] run by auto
  have p: "\<not> falsy (shd (stl (inputs w)))"
    using loop_no_password[OF a3 u] run by auto
  show ?case
  proof (cases "loginError (shd (replies w))")
    case None
    then obtain data where d: "shd (replies w) = Response True (AuthBody data)"
      by (auto simp: loginError_None)
    let ?u = "orElse (shd (inputs w)) ''''"
    from loop_granted[OF a3 u p d] run have
      s: "s = \<lparr>session_id = ?u, accessToken = tokens_accessToken (tokens data),
             account = \<lparr>account_id = ?u, label = orElse (Some (displayName (user data))) ?u\<rparr>,
             scopes = [],
             refreshToken = orElse (tokens_refreshToken (tokens data)) '''',
             expiresAt = shd (clock w) + 600000, loginNeeded = False\<rparr>"
      and w': "w' = storeSessions ((gaveUp w a)\<lparr>clock := stl (clock w)\<rparr>) [s]"
      by (simp_all add: Let_def)
    have "fst (getSessions w') = Inr [s]" by (simp add: w' getSessions_after_store)
    moreover have "events (trace w') = events (trace w)"
      by (simp add: w' storeSessions_def secretStorage_store_def events_append gaveUp_fields)
    moreover have "inputs w !! (2 * 0) = Some ?u \<and> ?u \<noteq> []"
      using falsy_orElse[OF u] by simp
    ultimately show ?thesis
      using a3 d s by (intro exI[of _ 0] exI[of _ data] exI[of _ ?u]) simp
  next
    case (Some e)
    show ?thesis
    proof (cases "a < 2")
      case True
      from loop_retry[OF True u p Some] obtain msg where
        "createSessionLoop w a = createSessionLoop (retried w a msg) (Suc a)" by blast
      with run have r: "createSessionLoop (retried w a msg) (Suc a) = (Inr s, w')" by simp
      have n: "n = 3 - Suc a" using Suc.hyps(2) by simp
      from Suc.hyps(1)[OF n r] obtain k data u where
        k: "Suc a + k < 3" "replies (retried w a msg) !! k = Response True (AuthBody data)"
           "inputs (retried w a msg) !! (2 * k) = Some u" "u \<noteq> []"
           "s = \<lparr>session_id = u, accessToken = tokens_accessToken (tokens data),
             account = \<lparr>account_id = u, label = orElse (Some (displayName (user data))) u\<rparr>,
             scopes = [],
             refreshToken = orElse (tokens_refreshToken (tokens data)) '''',
             expiresAt = shd (clock (retried w a msg)) + 600000, loginNeeded = False\<rparr>"
           "fst (getSessions w') = Inr [s]" "events (trace w') = events (trace (retried w a msg))"
        by blast
      from k show ?thesis
        by (intro exI[of _ "Suc k"] exI[of _ data] exI[of _ u]) (simp add: retried_fields)
    next
      case False
      with a3 have "a = 2" by simp
      with loop_last_failure[OF u p Some] run show ?thesis by simp
    qed
  qed
qed

lemma first_two_inputs:
  assumes "\<forall>i<2 * Suc k. \<not> falsy (s !! i)"
  shows "\<not> falsy (shd s)" and "\<not> falsy (shd (stl s))"
proof -
  have "0 < 2 * Suc k" "Suc 0 < 2 * Suc k" by simp_all
  with assms have "\<not> falsy (s !! 0)" "\<not> falsy (s !! Suc 0)" by blast+
  then show "\<not> falsy (shd s)" and "\<not> falsy (shd (stl s))" by simp_all
qed

text \<open>A login loop whose attempt \<open>k\<close> is granted, after \<open>k\<close> failed ones, returns the session of
  that attempt.\<close>

lemma loop_forward:
  assumes "a + k < 3"
    and "\<forall>i<2 * Suc k. \<not> falsy (inputs w !! i)"
    and "\<forall>j<k. loginError (replies w !! j) \<noteq> None"
    and "replies w !! k = Response True (AuthBody data)"
  shows "\<exists>s w' u. createSessionLoop w a = (Inr s, w') \<and> inputs w !! (2 * k) = Some u \<and>
           s = \<lparr>session_id = u, accessToken = tokens_accessToken (tokens data),
                account = \<lparr>account_id = u, label = orElse (Some (displayName (user data))) u\<rparr>,
                scopes = [],
                refreshToken = orElse (tokens_refreshToken (tokens data)) '''',
                expiresAt = shd (clock w) + 600000, loginNeeded = False\<rparr> \<and>
           fst (getSessions w') = Inr [s] \<and> events (trace w') = events (trace w) \<and>
           length (calls (trace w')) = length (calls (trace w)) + Suc k"
  using assms
proof (induction k arbitrary: w a)
  case 0
  note u = first_two_inputs(1)[OF "0.prems"(2)] and p = first_two_inputs(2)[OF "0.prems"(2)]
  from "0.prems"(1) have a3: "a < 3" by simp
  from "0.prems"(4) have d: "shd (replies w) = Response True (AuthBody data)" by simp
  let ?u = "orElse (shd (inputs w)) ''''"
  let ?s = "\<lparr>session_id = ?u, accessToken = tokens_accessToken (tokens data),
             account = \<lparr>account_id = ?u, label = orElse (Some (displayName (user data))) ?u\<rparr>,
             scopes = [],
             refreshToken = orElse (tokens_refreshToken (tokens data)) '''',
             expiresAt = shd (clock w) + 600000, loginNeeded = False\<rparr>"
  let ?w' = "storeSessions ((gaveUp w a)\<lparr>clock := stl (clock w)\<rparr>) [?s]"
  from loop_granted[OF a3 u p d] have r: "createSessionLoop w a = (Inr ?s, ?w')"
    by (simp add: Let_def)
  have "fst (getSessions ?w') = Inr [?s]" by (rule getSessions_after_store)
  moreover have "events (trace ?w') = events (trace w)"
    by (simp add: storeSessions_def secretStorage_store_def events_append gaveUp_fields)
  moreover have "length (calls (trace ?w')) = length (calls (trace w)) + Suc 0"
    by (simp add: storeSessions_def secretStorage_store_def calls_append gaveUp_fields)
  moreover have "inputs w !! (2 * 0) = Some ?u"
    using falsy_orElse[OF u] by simp
  ultimately show ?case
    using r by (intro exI[of _ ?s] exI[of _ ?w'] exI[of _ ?u]) simp
next
  case (Suc k)
  note u = first_two_inputs(1)[OF Suc.prems(2)] and p = first_two_inputs(2)[OF Suc.prems(2)]
  from Suc.prems(1) have a2: "a < 2" by simp
  from Suc.prems(3) obtain e where e: "loginError (shd (replies w)) = Some e"
    by (cases "loginError (shd (replies w))") auto
  from loop_retry[OF a2 u p e] obtain msg where
    m: "createSessionLoop w a = createSessionLoop (retried w a msg) (Suc a)" by blast
  let ?v = "retried w a msg"
  have 1: "Suc a + k < 3" using Suc.prems(1) by simp
  have 2: "\<forall>i<2 * Suc k. \<not> falsy (inputs ?v !! i)"
  proof (intro allI impI)
    fix i assume "i < 2 * Suc k"
    then have "Suc (Suc i) < 2 * Suc (Suc k)" by simp
    with Suc.prems(2) have "\<not> falsy (inputs w !! Suc (Suc i))" by blast
    then show "\<not> falsy (inputs ?v !! i)" by (simp add: retried_fields)
  qed
  have 3: "\<forall>j<k. loginError (replies ?v !! j) \<noteq> None"
  proof (intro allI impI)
    fix j assume "j < k"
    then have "Suc j < Suc k" by simp
    with Suc.prems(3) have "loginError (replies w !! Suc j) \<noteq> None" by blast
    then show "loginError (replies ?v !! j) \<noteq> None" by (simp add: retried_fields)
  qed
  have 4: "replies ?v !! k = Response True (AuthBody data)"
    using Suc.prems(4) by (simp add: retried_fields)
  from Suc.IH[OF 1 2 3 4] obtain s w' u where
    r: "createSessionLoop ?v (Suc a) = (Inr s, w')" "inputs ?v !! (2 * k) = Some u"
       "s = \<lparr>session_id = u, accessToken = tokens_accessToken (tokens data),
                account = \<lparr>account_id = u, label = orElse (Some (displayName (user data))) u\<rparr>,
                scopes = [],
                refreshToken = orElse (tokens_refreshToken (tokens data)) '''',
                expiresAt = shd (clock ?v) + 600000, loginNeeded = False\<rparr>"
       "fst (getSessions w') = Inr [s]" "events (trace w') = events (trace ?v)"
       "length (calls (trace w')) = length (calls (trace ?v)) + Suc k"
    by blast
  from r m show ?case
    by (intro exI[of _ s] exI[of _ w'] exI[of _ u]) (simp add: retried_fields)
qed

text \<open>The basic provider's \<^verbatim>\<open>createSession\<close> makes one attempt. When the server grants it,
  the call returns a session and the store holds this record alone, with the lifetime the
  server sent, as the store gives it back, and no expiry time.\<close>

lemma createSession_basic_granted:
  assumes "\<not> falsy (shd (inputs v))" and "\<not> falsy (shd (stl (inputs v)))"
    and "shd (replies v) = Response True (AuthBody data)"
  shows "\<exists>s v' u. createSession_basic num v sc = (Inr s, v') \<and> shd (inputs v) = Some u \<and>
        s = \<lparr>b_id = u, b_accessToken = tokens_accessToken (tokens data),
             b_account = \<lparr>account_id = u, label = orElse (Some (displayName (user data))) u\<rparr>,
             b_scopes = [],
             b_refreshToken = (case tokens_refreshToken (tokens data) of
                                 None \<Rightarrow> '''' | Some t \<Rightarrow> t),
             expiresInMs = timesThousand num (tokens_expiresIn (tokens data)),
             b_loginNeeded = False\<rparr> \<and>
        fst (getSessions v') = Inr [written num s] \<and> events (trace v') = events (trace v) \<and>
        length (calls (trace v')) = length (calls (trace v)) + 1"
proof -
  let ?u = "orElse (shd (inputs v)) ''''"
  let ?s = "\<lparr>b_id = ?u, b_accessToken = tokens_accessToken (tokens data),
       b_account = \<lparr>account_id = ?u, label = orElse (Some (displayName (user data))) ?u\<rparr>,
       b_scopes = [],
       b_refreshToken = orElse (tokens_refreshToken (tokens data)) '''',
       expiresInMs = timesThousand num (tokens_expiresIn (tokens data)),
       b_loginNeeded = False\<rparr>"
  let ?v3 = "v\<lparr>inputs := stl (stl (inputs v)), replies := stl (replies v),
       trace := trace v @ [InputBox ''Enter LDAP username'', InputBox ''Enter LDAP password'',
         Fetch (PostLogin ?u (orElse (shd (stl (inputs v))) ''''))]\<rparr>"
  let ?v' = "storeSessions ?v3 [written num ?s]"
  from assms have r: "createSession_basic num v sc = (Inr ?s, ?v')"
    by (simp add: createSession_basic_def showInputBox_def fetch_def authData_def Let_def)
  have "fst (getSessions ?v') = Inr [written num ?s]" by (rule getSessions_after_store)
  moreover have "events (trace ?v') = events (trace v)"
    by (simp add: storeSessions_def secretStorage_store_def events_append)
  moreover have "length (calls (trace ?v')) = length (calls (trace v)) + 1"
    by (simp add: storeSessions_def secretStorage_store_def calls_append)
  moreover have "shd (inputs v) = Some ?u"
    using falsy_orElse[OF assms(1)] by simp
  ultimately show ?thesis
    using r by (intro exI[of _ ?s] exI[of _ ?v'] exI[of _ ?u]) (simp add: orElse_empty)
qed

text \<open>And when it returns a session, the server granted the login.\<close>

lemma createSession_basic_success:
  assumes "createSession_basic num v sc = (Inr s, v')"
  shows "\<exists>data u. shd (replies v) = Response True (AuthBody data) \<and> shd (inputs v) = Some u \<and>
        s = \<lparr>b_id = u, b_accessToken = tokens_accessToken (tokens data),
             b_account = \<lparr>account_id = u, label = orElse (Some (displayName (user data))) u\<rparr>,
             b_scopes = [],
             b_refreshToken = (case tokens_refreshToken (tokens data) of
                                 None \<Rightarrow> '''' | Some t \<Rightarrow> t),
             expiresInMs = timesThousand num (tokens_expiresIn (tokens data)),
             b_loginNeeded = False\<rparr> \<and>
        fst (getSessions v') = Inr [written num s] \<and> events (trace v') = events (trace v)"
proof -
  have u: "\<not> falsy (shd (inputs v))" and p: "\<not> falsy (shd (stl (inputs v)))"
    using assms by (auto simp: createSession_basic_def showInputBox_def split: if_splits)
  from assms u p obtain data where d: "shd (replies v) = Response True (AuthBody data)"
    by (cases "shd (replies v)")
       (auto simp: createSession_basic_def showInputBox_def fetch_def authData_def
          split: if_splits body.splits)
  from createSession_basic_granted[OF u p d, of num sc] assms d show ?thesis
    by auto
qed

text \<open>C6. A login that the server grants, at the first attempt or after one or two failed
  ones with every input box answered, makes \<^verbatim>\<open>createSession\<close> return a session; and whenever
  \<^verbatim>\<open>createSession\<close> returns a session, one of its at most three attempts was granted. The
  session's id is the username entered in that attempt, its \<open>expiresAt\<close> is the clock's
  reading plus ten minutes, its refresh token is the server's, or the empty string when the
  server sent none; the store afterwards holds exactly this record, whatever it held before,
  and no event was fired. The same holds of the basic provider's \<^verbatim>\<open>createSession\<close>, which
  makes one attempt, with the lifetime the server sent in the place of an expiry time.\<close>

theorem createSession_success:
  fixes w :: "session world" and v :: "'n basicSession world"
  shows
  "(\<forall>k data. k < 3 \<and> (\<forall>i<2 * Suc k. \<not> falsy (inputs w !! i)) \<and>
       (\<forall>j<k. loginError (replies w !! j) \<noteq> None) \<and>
       replies w !! k = Response True (AuthBody data) \<longrightarrow>
     (\<exists>s w' u. createSession w sc = (Inr s, w') \<and> inputs w !! (2 * k) = Some u \<and>
        s = \<lparr>session_id = u, accessToken = tokens_accessToken (tokens data),
             account = \<lparr>account_id = u, label = orElse (Some (displayName (user data))) u\<rparr>,
             scopes = [],
             refreshToken = (case tokens_refreshToken (tokens data) of
                               None \<Rightarrow> '''' | Some t \<Rightarrow> t),
             expiresAt = shd (clock w) + 10 * 60 * 1000, loginNeeded = False\<rparr> \<and>
        fst (getSessions w') = Inr [s] \<and> events (trace w') = events (trace w) \<and>
        length (calls (trace w')) = length (calls (trace w)) + Suc k)) \<and>
   (\<forall>s w'. createSession w sc = (Inr s, w') \<longrightarrow>
     (\<exists>k data u. k < 3 \<and> replies w !! k = Response True (AuthBody data) \<and>
        inputs w !! (2 * k) = Some u \<and>
        s = \<lparr>session_id = u, accessToken = tokens_accessToken (tokens data),
             account = \<lparr>account_id = u, label = orElse (Some (displayName (user data))) u\<rparr>,
             scopes = [],
             refreshToken = (case tokens_refreshToken (tokens data) of
                               None \<Rightarrow> '''' | Some t \<Rightarrow> t),
             expiresAt = shd (clock w) + 10 * 60 * 1000, loginNeeded = False\<rparr> \<and>
        fst (getSessions w') = Inr [s] \<and> events (trace w') = events (trace w))) \<and>
   (\<forall>data. \<not> falsy (shd (inputs v)) \<and> \<not> falsy (shd (stl (inputs v))) \<and>
       shd (replies v) = Response True (AuthBody data) \<longrightarrow>
     (\<exists>s v' u. createSession_basic num v sc = (Inr s, v') \<and> shd (inputs v) = Some u \<and>
        s = \<lparr>b_id = u, b_accessToken = tokens_accessToken (tokens data),
             b_account = \<lparr>account_id = u, label = orElse (Some (displayName (user data))) u\<rparr>,
             b_scopes = [],
             b_refreshToken = (case tokens_refreshToken (tokens data) of
                                 None \<Rightarrow> '''' | Some t \<Rightarrow> t),
             expiresInMs = timesThousand num (tokens_expiresIn (tokens data)),
             b_loginNeeded = False\<rparr> \<and>
        fst (getSessions v') = Inr [written num s] \<and> events (trace v') = events (trace v) \<and>
        length (calls (trace v')) = length (calls (trace v)) + 1)) \<and>
   (\<forall>s v'. createSession_basic num v sc = (Inr s, v') \<longrightarrow>
     (\<exists>data u. shd (replies v) = Response True (AuthBody data) \<and> shd (inputs v) = Some u \<and>
        s = \<lparr>b_id = u, b_accessToken = tokens_accessToken (tokens data),
             b_account = \<lparr>account_id = u, label = orElse (Some (displayName (user data))) u\<rparr>,
             b_scopes = [],
             b_refreshToken = (case tokens_refreshToken (tokens data) of
                                 None \<Rightarrow> '''' | Some t \<Rightarrow> t),
             expiresInMs = timesThousand num (tokens_expiresIn (tokens data)),
             b_loginNeeded = False\<rparr> \<and>
        fst (getSessions v') = Inr [written num s] \<and> events (trace v') = events (trace v)))"
proof (intro conjI allI impI)
  fix k data
  assume a: "k < 3 \<and> (\<forall>i<2 * Suc k. \<not> falsy (inputs w !! i)) \<and>
       (\<forall>j<k. loginError (replies w !! j) \<noteq> None) \<and>
       replies w !! k = Response True (AuthBody data)"
  then have "0 + k < 3" by simp
  from loop_forward[OF this, of w data] a
  show "\<exists>s w' u. createSession w sc = (Inr s, w') \<and> inputs w !! (2 * k) = Some u \<and>
        s = \<lparr>session_id = u, accessToken = tokens_accessToken (tokens data),
             account = \<lparr>account_id = u, label = orElse (Some (displayName (user data))) u\<rparr>,
             scopes = [],
             refreshToken = (case tokens_refreshToken (tokens data) of
                               None \<Rightarrow> '''' | Some t \<Rightarrow> t),
             expiresAt = shd (clock w) + 10 * 60 * 1000, loginNeeded = False\<rparr> \<and>
        fst (getSessions w') = Inr [s] \<and> events (trace w') = events (trace w) \<and>
        length (calls (trace w')) = length (calls (trace w)) + Suc k"
    by (simp add: createSession_def orElse_empty)
next
  fix s w'
  assume "createSession w sc = (Inr s, w')"
  then have "createSessionLoop w 0 = (Inr s, w')" by (simp add: createSession_def)
  from loop_success[OF this]
  show "\<exists>k data u. k < 3 \<and> replies w !! k = Response True (AuthBody data) \<and>
        inputs w !! (2 * k) = Some u \<and>
        s = \<lparr>session_id = u, accessToken = tokens_accessToken (tokens data),
             account = \<lparr>account_id = u, label = orElse (Some (displayName (user data))) u\<rparr>,
             scopes = [],
             refreshToken = (case tokens_refreshToken (tokens data) of
                               None \<Rightarrow> '''' | Some t \<Rightarrow> t),
             expiresAt = shd (clock w) + 10 * 60 * 1000, loginNeeded = False\<rparr> \<and>
        fst (getSessions w') = Inr [s] \<and> events (trace w') = events (trace w)"
    by (auto simp: orElse_empty)
next
  fix data
  assume "\<not> falsy (shd (inputs v)) \<and> \<not> falsy (shd (stl (inputs v))) \<and>
       shd (replies v) = Response True (AuthBody data)"
  then have a: "\<not> falsy (shd (inputs v))" "\<not> falsy (shd (stl (inputs v)))"
    "shd (replies v) = Response True (AuthBody data)" by simp_all
  show "\<exists>s v' u. createSession_basic num v sc = (Inr s, v') \<and> shd (inputs v) = Some u \<and>
        s = \<lparr>b_id = u, b_accessToken = tokens_accessToken (tokens data),
             b_account = \<lparr>account_id = u, label = orElse (Some (displayName (user data))) u\<rparr>,
             b_scopes = [],
             b_refreshToken = (case tokens_refreshToken (tokens data) of
                                 None \<Rightarrow> '''' | Some t \<Rightarrow> t),
             expiresInMs = timesThousand num (tokens_expiresIn (tokens data)),
             b_loginNeeded = False\<rparr> \<and>
        fst (getSessions v') = Inr [written num s] \<and> events (trace v') = events (trace v) \<and>
        length (calls (trace v')) = length (calls (trace v)) + 1"
    by (rule createSession_basic_granted[OF a])
next
  fix s v'
  assume "createSession_basic num v sc = (Inr s, v')"
  then show "\<exists>data u. shd (replies v) = Response True (AuthBody data) \<and> shd (inputs v) = Some u \<and>
        s = \<lparr>b_id = u, b_accessToken = tokens_accessToken (tokens data),
             b_account = \<lparr>account_id = u, label = orElse (Some (displayName (user data))) u\<rparr>,
             b_scopes = [],
             b_refreshToken = (case tokens_refreshToken (tokens data) of
                                 None \<Rightarrow> '''' | Some t \<Rightarrow> t),
             expiresInMs = timesThousand num (tokens_expiresIn (tokens data)),
             b_loginNeeded = False\<rparr> \<and>
        fst (getSessions v') = Inr [written num s] \<and> events (trace v') = events (trace v)"
    by (rule createSession_basic_success)
qed

text \<open>A first login into an empty store, a login that replaces the stored session of
  \<open>alice\<close>, and a first login at the basic provider.\<close>

theorem createSession_success_witness:
  "\<not> falsy (inputs newcomer !! 0) \<and> \<not> falsy (inputs newcomer !! 1) \<and>
   replies newcomer !! 0 = Response True (AuthBody granted) \<and>
   fst (getSessions newcomer) = Inr [] \<and>
   createSession newcomer [] = (Inr carol, snd (createSession newcomer [])) \<and>
   fst (getSessions (snd (createSession newcomer []))) = Inr [carol] \<and>
   events (trace (snd (createSession newcomer []))) = [] \<and>
   length (calls (trace (snd (createSession newcomer [])))) = 1 \<and>
   \<not> falsy (inputs carolLogsIn !! 0) \<and> \<not> falsy (inputs carolLogsIn !! 1) \<and>
   replies carolLogsIn !! 0 = Response True (AuthBody granted) \<and>
   fst (getSessions carolLogsIn) = Inr [alice] \<and>
   createSession carolLogsIn [] = (Inr carol, snd (createSession carolLogsIn [])) \<and>
   fst (getSessions (snd (createSession carolLogsIn []))) = Inr [carol] \<and>
   events (trace (snd (createSession carolLogsIn []))) = [] \<and>
   shd (clock carolLogsIn) = 2000 \<and> expiresAt carol = 2000 + 10 * 60 * 1000 \<and>
   refreshToken carol = '''' \<and> session_id carol = ''carol'' \<and>
   \<not> falsy (shd (inputs basic_newcomer)) \<and> \<not> falsy (shd (stl (inputs basic_newcomer))) \<and>
   shd (replies basic_newcomer) = Response True (AuthBody granted) \<and>
   fst (getSessions basic_newcomer) = Inr [] \<and>
   createSession_basic exampleNumbers basic_newcomer [] =
     (Inr basic_carol, snd (createSession_basic exampleNumbers basic_newcomer [])) \<and>
   fst (getSessions (snd (createSession_basic exampleNumbers basic_newcomer []))) =
     Inr [basic_carol] \<and>
   events (trace (snd (createSession_basic exampleNumbers basic_newcomer []))) = [] \<and>
   b_id basic_carol = ''carol'' \<and> b_refreshToken basic_carol = ''''"
proof -
  have f: "inputs newcomer !! 0 = Some ''carol''" "inputs newcomer !! 1 = Some ''pw''"
    "replies newcomer !! 0 = Response True (AuthBody granted)"
    "fst (getSessions newcomer) = Inr []" "trace newcomer = []" "shd (clock newcomer) = 2000"
    "inputs carolLogsIn !! 0 = Some ''carol''" "inputs carolLogsIn !! 1 = Some ''pw''"
    "replies carolLogsIn !! 0 = Response True (AuthBody granted)"
    "fst (getSessions carolLogsIn) = Inr [alice]" "trace carolLogsIn = []"
    "shd (clock carolLogsIn) = 2000"
    by (simp_all add: getSessions_value newcomer_def carolLogsIn_def answering_def typing_def
        timed_def holding_def idle_def)
  have h: "(0::nat) < 3 \<and> (\<forall>i<2 * Suc 0. \<not> falsy (inputs newcomer !! i)) \<and>
       (\<forall>j<0. loginError (replies newcomer !! j) \<noteq> None) \<and>
       replies newcomer !! 0 = Response True (AuthBody granted)"
    "(0::nat) < 3 \<and> (\<forall>i<2 * Suc 0. \<not> falsy (inputs carolLogsIn !! i)) \<and>
       (\<forall>j<0. loginError (replies carolLogsIn !! j) \<noteq> None) \<and>
       replies carolLogsIn !! 0 = Response True (AuthBody granted)"
    using f by (simp_all add: numeral_2_eq_2 All_less_Suc falsy_def del: snth.simps)
  from createSession_success[of newcomer "[]", THEN conjunct1, rule_format, OF h(1)]
  obtain s w' u where n: "createSession newcomer [] = (Inr s, w')"
    "inputs newcomer !! (2 * 0) = Some u"
    "s = \<lparr>session_id = u, accessToken = tokens_accessToken (tokens granted),
             account = \<lparr>account_id = u, label = orElse (Some (displayName (user granted))) u\<rparr>,
             scopes = [],
             refreshToken = (case tokens_refreshToken (tokens granted) of
                               None \<Rightarrow> '''' | Some t \<Rightarrow> t),
             expiresAt = shd (clock newcomer) + 10 * 60 * 1000, loginNeeded = False\<rparr>"
    "fst (getSessions w') = Inr [s]" "events (trace w') = events (trace newcomer)"
    "length (calls (trace w')) = length (calls (trace newcomer)) + Suc 0"
    by blast
  from n(2) f(1) have "u = ''carol''" by simp
  with n(3) f(6) have sn: "s = carol" by (simp add: carol_def granted_def orElse_def)
  from n(1) have wn: "w' = snd (createSession newcomer [])" by simp
  from createSession_success[of carolLogsIn "[]", THEN conjunct1, rule_format, OF h(2)]
  obtain s2 w2 u2 where c: "createSession carolLogsIn [] = (Inr s2, w2)"
    "inputs carolLogsIn !! (2 * 0) = Some u2"
    "s2 = \<lparr>session_id = u2, accessToken = tokens_accessToken (tokens granted),
             account = \<lparr>account_id = u2, label = orElse (Some (displayName (user granted))) u2\<rparr>,
             scopes = [],
             refreshToken = (case tokens_refreshToken (tokens granted) of
                               None \<Rightarrow> '''' | Some t \<Rightarrow> t),
             expiresAt = shd (clock carolLogsIn) + 10 * 60 * 1000, loginNeeded = False\<rparr>"
    "fst (getSessions w2) = Inr [s2]" "events (trace w2) = events (trace carolLogsIn)"
    by blast
  from c(2) f(7) have "u2 = ''carol''" by simp
  with c(3) f(12) have sc: "s2 = carol" by (simp add: carol_def granted_def orElse_def)
  from c(1) have wc: "w2 = snd (createSession carolLogsIn [])" by simp
  have g: "shd (inputs basic_newcomer) = Some ''carol''"
    "shd (stl (inputs basic_newcomer)) = Some ''pw''"
    "shd (replies basic_newcomer) = Response True (AuthBody granted)"
    "fst (getSessions basic_newcomer) = Inr []" "trace basic_newcomer = []"
    by (simp_all add: getSessions_value basic_newcomer_def answering_def typing_def
        idle_def)
  have hb: "\<not> falsy (shd (inputs basic_newcomer)) \<and>
       \<not> falsy (shd (stl (inputs basic_newcomer))) \<and>
       shd (replies basic_newcomer) = Response True (AuthBody granted)"
    by (simp only: g falsy_def) simp
  from createSession_success[where v = basic_newcomer and num = exampleNumbers and sc = "[]",
      THEN conjunct2, THEN conjunct2, THEN conjunct1, rule_format, OF hb]
  obtain s3 v3 u3 where b: "createSession_basic exampleNumbers basic_newcomer [] = (Inr s3, v3)"
    "shd (inputs basic_newcomer) = Some u3"
    "s3 = \<lparr>b_id = u3, b_accessToken = tokens_accessToken (tokens granted),
             b_account = \<lparr>account_id = u3,
                          label = orElse (Some (displayName (user granted))) u3\<rparr>,
             b_scopes = [],
             b_refreshToken = (case tokens_refreshToken (tokens granted) of
                                 None \<Rightarrow> '''' | Some t \<Rightarrow> t),
             expiresInMs = timesThousand exampleNumbers (tokens_expiresIn (tokens granted)),
             b_loginNeeded = False\<rparr>"
    "fst (getSessions v3) = Inr [written exampleNumbers s3]"
    "events (trace v3) = events (trace basic_newcomer)"
    by blast
  from b(2) g(1) have "u3 = ''carol''" by simp
  with b(3) have sb: "s3 = basic_carol" "written exampleNumbers s3 = basic_carol"
    by (simp_all add: basic_carol_def granted_def orElse_def exampleNumbers_def written_def)
  from b(1) have wb: "v3 = snd (createSession_basic exampleNumbers basic_newcomer [])" by simp
  have i: "\<not> falsy (inputs newcomer !! 0)" "\<not> falsy (inputs newcomer !! 1)"
    "\<not> falsy (inputs carolLogsIn !! 0)" "\<not> falsy (inputs carolLogsIn !! 1)"
    by (simp_all only: f falsy_def) simp_all
  have j: "\<not> falsy (shd (inputs basic_newcomer))"
    "\<not> falsy (shd (stl (inputs basic_newcomer)))"
    using hb by simp_all
  have N: "createSession newcomer [] = (Inr carol, snd (createSession newcomer []))"
    "fst (getSessions (snd (createSession newcomer []))) = Inr [carol]"
    "events (trace (snd (createSession newcomer []))) = []"
    "length (calls (trace (snd (createSession newcomer [])))) = 1"
    using n(1,4,5,6) sn wn f(5) by simp_all
  have C: "createSession carolLogsIn [] = (Inr carol, snd (createSession carolLogsIn []))"
    "fst (getSessions (snd (createSession carolLogsIn []))) = Inr [carol]"
    "events (trace (snd (createSession carolLogsIn []))) = []"
    using c(1,4,5) sc wc f(11) by simp_all
  have B: "createSession_basic exampleNumbers basic_newcomer [] =
       (Inr basic_carol, snd (createSession_basic exampleNumbers basic_newcomer []))"
    "fst (getSessions (snd (createSession_basic exampleNumbers basic_newcomer []))) =
       Inr [basic_carol]"
    "events (trace (snd (createSession_basic exampleNumbers basic_newcomer []))) = []"
    using b(1,4,5) sb wb g(5) by simp_all
  have k: "expiresAt carol = 2000 + 10 * 60 * 1000" "refreshToken carol = ''''"
    "session_id carol = ''carol''" "b_id basic_carol = ''carol''"
    "b_refreshToken basic_carol = ''''"
    by (simp_all add: carol_def basic_carol_def)
  from i(1,2) f(3,4) N i(3,4) f(9,10) C f(12) k(1,2,3) j g(3,4) B k(4,5) show ?thesis
    by (intro conjI) assumption+
qed

section \<open>The token accessor reads, and never logs in\<close>

lemma authentication_getSession_silent:
  "authentication_getSession w ''ldap'' [] \<lparr>createIfNone = False\<rparr> =
     (case fst (getSessions w) of
        Inl e \<Rightarrow> Inl e
      | Inr [] \<Rightarrow> Inr None
      | Inr (s # others) \<Rightarrow> Inr (Some s),
      w\<lparr>trace := trace w @ [SecretGet ''ldap.sessions'']\<rparr>)"
  using getSessions_world[of w]
  by (cases "getSessions w")
     (auto simp: authentication_getSession_def split: sum.splits list.splits)

text \<open>C10. \<^verbatim>\<open>getUserToken\<close> asks for the session with \<^verbatim>\<open>createIfNone: false\<close>: it opens no input
  box and sends no request. When the stored list is read (\<open>ss\<close>): with a session it returns
  the first session's access token; without one it returns the configured \<^verbatim>\<open>userToken\<close>
  when that is set and not empty; and it fails with \<^verbatim>\<open>No authentication token found\<close>
  exactly when there is no session and no configured token.\<close>

theorem getUserToken_result:
  "prompts (trace (snd (getUserToken w tok))) = prompts (trace w) \<and>
   calls (trace (snd (getUserToken w tok))) = calls (trace w) \<and>
   (\<forall>ss. fst (getSessions w) = Inr ss \<longrightarrow>
      (\<forall>s others. ss = s # others \<longrightarrow> fst (getUserToken w tok) = Inr (accessToken s)) \<and>
      (\<forall>t. ss = [] \<and> tok = Some t \<and> t \<noteq> [] \<longrightarrow> fst (getUserToken w tok) = Inr t) \<and>
      (fst (getUserToken w tok) = Inl (Error ''No authentication token found'')
         \<longleftrightarrow> ss = [] \<and> (tok = None \<or> tok = Some [])))"
proof -
  have w: "snd (getUserToken w tok) = w\<lparr>trace := trace w @ [SecretGet ''ldap.sessions'']\<rparr>"
    by (simp add: getUserToken_def authentication_getSession_silent
        split: sum.splits list.splits)
  have a: "prompts (trace (snd (getUserToken w tok))) = prompts (trace w)"
    and b: "calls (trace (snd (getUserToken w tok))) = calls (trace w)"
    by (simp_all add: w prompts_append calls_append)
  have c: "fst (getUserToken w tok) = Inr (accessToken s)"
    if "fst (getSessions w) = Inr (s # others)" for s others
    using that by (simp add: getUserToken_def authentication_getSession_silent)
  have d: "fst (getUserToken w tok) =
      (if falsy tok then Inl (Error ''No authentication token found'') else Inr (orElse tok ''''))"
    if "fst (getSessions w) = Inr []"
    using that by (simp add: getUserToken_def authentication_getSession_silent)
  have e: "falsy tok \<longleftrightarrow> tok = None \<or> tok = Some []"
    by (cases tok) (simp_all add: falsy_def)
  show ?thesis
  proof (intro conjI allI impI)
    show "prompts (trace (snd (getUserToken w tok))) = prompts (trace w)" by (rule a)
    show "calls (trace (snd (getUserToken w tok))) = calls (trace w)" by (rule b)
  next
    fix ss s others
    assume "fst (getSessions w) = Inr ss" "ss = s # others"
    then show "fst (getUserToken w tok) = Inr (accessToken s)" by (simp add: c)
  next
    fix ss t
    assume "fst (getSessions w) = Inr ss" "ss = [] \<and> tok = Some t \<and> t \<noteq> []"
    with d show "fst (getUserToken w tok) = Inr t" by (auto simp: falsy_def orElse_def)
  next
    fix ss
    assume g: "fst (getSessions w) = Inr ss"
    show "fst (getUserToken w tok) = Inl (Error ''No authentication token found'')
         \<longleftrightarrow> ss = [] \<and> (tok = None \<or> tok = Some [])"
    proof (cases ss)
      case Nil
      with g d e show ?thesis by simp
    next
      case (Cons s others)
      with g c[of s others] show ?thesis by simp
    qed
  qed
qed

text \<open>A stored session, a configured token, and neither.\<close>

theorem getUserToken_result_witness:
  "fst (getSessions (holding [alice, bob])) = Inr [alice, bob] \<and>
   fst (getUserToken (holding [alice, bob]) (Some ''configured'')) = Inr ''T1'' \<and>
   fst (getSessions (idle :: session world)) = Inr [] \<and>
   fst (getUserToken idle (Some ''configured'')) = Inr ''configured'' \<and>
   fst (getUserToken idle None) = Inl (Error ''No authentication token found'') \<and>
   fst (getUserToken idle (Some [])) = Inl (Error ''No authentication token found'') \<and>
   prompts (trace (snd (getUserToken idle None))) = [] \<and>
   calls (trace (snd (getUserToken idle None))) = []"
proof -
  have g: "fst (getSessions (holding [alice, bob])) = Inr [alice, bob]"
    "fst (getSessions (idle :: session world)) = Inr []"
    "trace (idle :: session world) = []"
    by (simp_all add: getSessions_value holding_def idle_def)
  from getUserToken_result[of "holding [alice, bob]" "Some ''configured''"]
    getUserToken_result[of idle "Some ''configured''"]
    getUserToken_result[of idle None] getUserToken_result[of idle "Some []"] g
  show ?thesis by (simp add: alice_def)
qed

end
